theory Spec2Isabelle
  imports Complex_Main "HOL-Library.Log_Nat"
begin

section \<open>JavaScript numbers\<close>

text \<open>
  A JavaScript \<^verbatim>\<open>number\<close> is an IEEE-754 double: a finite value, written here as the
  rational it denotes, one of the two infinities, or NaN. Every operation computes the
  exact result and rounds it to the nearest double, ties to even, as the standard
  prescribes. The two zeros are not told apart: they are equal for \<^verbatim>\<open>===\<close>, both are
  falsy, and nothing here divides by them.
\<close>

datatype jsnum = NaN | PInf | NInf | Fin rat

text \<open>Rounding to the nearest integer, ties to the even one.\<close>

definition roundHalfEven :: "rat \<Rightarrow> int" where
  "roundHalfEven x =
     (let f = \<lfloor>x\<rfloor>; r = x - of_int f
      in if r < 1 / 2 then f else if 1 / 2 < r then f + 1 else if even f then f else f + 1)"

text \<open>The \<open>e\<close> with \<open>2 powi e \<le> x < 2 powi (e + 1)\<close>, for a positive \<open>x\<close>.\<close>

definition binaryExponent :: "rat \<Rightarrow> int" where
  "binaryExponent x =
     (case quotient_of x of
        (n, d) \<Rightarrow> let g = bitlen n - bitlen d in if 2 powi g \<le> x then g else g - 1)"

text \<open>
  A positive magnitude rounded to 53 significant bits, or to a multiple of the smallest
  subnormal \<open>2 powi - 1074\<close> when it is below the normal range.
\<close>

definition roundMagnitude :: "rat \<Rightarrow> rat" where
  "roundMagnitude a =
     (let p = max (binaryExponent a - 52) (- 1074)
      in of_int (roundHalfEven (a / 2 powi p)) * 2 powi p)"

text \<open>The double nearest to a rational; a rounded magnitude of \<open>2 powi 1024\<close> or more overflows.\<close>

definition toDouble :: "rat \<Rightarrow> jsnum" where
  "toDouble x =
     (if x = 0 then Fin 0
      else
        let v = roundMagnitude \<bar>x\<bar>
        in if 2 powi 1024 \<le> v then (if x < 0 then NInf else PInf)
           else Fin (if x < 0 then - v else v))"

definition isNaN :: "jsnum \<Rightarrow> bool" where
  "isNaN n = (n = NaN)"

text \<open>Truthiness of a number: everything but \<^verbatim>\<open>0\<close>, \<^verbatim>\<open>-0\<close> and \<^verbatim>\<open>NaN\<close>.\<close>

definition truthy :: "jsnum \<Rightarrow> bool" where
  "truthy n = (n \<noteq> NaN \<and> n \<noteq> Fin 0)"

fun jneg :: "jsnum \<Rightarrow> jsnum" where
  "jneg NaN = NaN"
| "jneg PInf = NInf"
| "jneg NInf = PInf"
| "jneg (Fin q) = Fin (- q)"

fun jadd :: "jsnum \<Rightarrow> jsnum \<Rightarrow> jsnum" where
  "jadd NaN _ = NaN"
| "jadd _ NaN = NaN"
| "jadd PInf NInf = NaN"
| "jadd NInf PInf = NaN"
| "jadd PInf _ = PInf"
| "jadd _ PInf = PInf"
| "jadd NInf _ = NInf"
| "jadd _ NInf = NInf"
| "jadd (Fin a) (Fin b) = toDouble (a + b)"

definition jsub :: "jsnum \<Rightarrow> jsnum \<Rightarrow> jsnum" where
  "jsub a b = jadd a (jneg b)"

fun jsign :: "jsnum \<Rightarrow> int" where
  "jsign NaN = 0"
| "jsign PInf = 1"
| "jsign NInf = -1"
| "jsign (Fin q) = (if q < 0 then -1 else if q = 0 then 0 else 1)"

fun jmul :: "jsnum \<Rightarrow> jsnum \<Rightarrow> jsnum" where
  "jmul NaN _ = NaN"
| "jmul _ NaN = NaN"
| "jmul (Fin a) (Fin b) = toDouble (a * b)"
| "jmul a b =
     (if jsign a * jsign b = 0 then NaN
      else if jsign a * jsign b < 0 then NInf else PInf)"

text \<open>The comparison \<^verbatim>\<open>a > b\<close>: false as soon as one side is NaN.\<close>

fun jgt :: "jsnum \<Rightarrow> jsnum \<Rightarrow> bool" where
  "jgt NaN _ = False"
| "jgt _ NaN = False"
| "jgt PInf b = (b \<noteq> PInf)"
| "jgt NInf _ = False"
| "jgt (Fin a) PInf = False"
| "jgt (Fin a) NInf = True"
| "jgt (Fin a) (Fin b) = (a > b)"

text \<open>\<^verbatim>\<open>Math.max(a, b)\<close>: NaN as soon as one argument is NaN.\<close>

definition jmax :: "jsnum \<Rightarrow> jsnum \<Rightarrow> jsnum" where
  "jmax a b = (if a = NaN \<or> b = NaN then NaN else if jgt b a then b else a)"

text \<open>
  Strict inequality \<^verbatim>\<open>a !== b\<close> on values of type \<^verbatim>\<open>number | null\<close>: NaN differs from
  everything, itself included.
\<close>

definition strictNeq :: "jsnum option \<Rightarrow> jsnum option \<Rightarrow> bool" where
  "strictNeq a b = (a \<noteq> b \<or> a = Some NaN)"

text \<open>Truthiness of a value of type \<^verbatim>\<open>number | null\<close>.\<close>

definition truthyOpt :: "jsnum option \<Rightarrow> bool" where
  "truthyOpt v = (case v of None \<Rightarrow> False | Some n \<Rightarrow> truthy n)"

section \<open>parseFloat\<close>

text \<open>
  The built-in \<^verbatim>\<open>parseFloat\<close>, after ECMAScript: leading white space is skipped, then the
  longest prefix that is a decimal literal is read (a sign, then \<^verbatim>\<open>Infinity\<close> or digits
  with an optional fraction and an optional exponent); whatever follows is ignored, and
  NaN is returned when there is no such prefix. The value is the double nearest to the
  decimal value. A string is a sequence of code units below 256, which is what Node
  makes of the bytes of a header; the white space among them is the ASCII one and the
  no-break space \<open>0xA0\<close>.
\<close>

definition isWhite :: "char \<Rightarrow> bool" where
  "isWhite c = (c \<in> set [CHR '' '', CHR 0x09, CHR 0x0A, CHR 0x0B, CHR 0x0C, CHR 0x0D, CHR 0xA0])"

definition isDigit :: "char \<Rightarrow> bool" where
  "isDigit c = (c \<in> set ''0123456789'')"

definition digitVal :: "char \<Rightarrow> nat" where
  "digitVal c =
     (case map_of (zip ''0123456789'' [0, 1, 2, 3, 4, 5, 6, 7, 8, 9]) c of
        None \<Rightarrow> 0 | Some d \<Rightarrow> d)"

definition digitsVal :: "string \<Rightarrow> nat" where
  "digitsVal ds = foldl (\<lambda>a c. 10 * a + digitVal c) 0 ds"

definition startsWith :: "string \<Rightarrow> string \<Rightarrow> bool" where
  "startsWith s p = (take (length p) s = p)"

text \<open>The exponent part: \<^verbatim>\<open>e\<close> or \<^verbatim>\<open>E\<close>, an optional sign, at least one digit; otherwise 0.\<close>

definition exponentOf :: "string \<Rightarrow> int" where
  "exponentOf s =
     (case s of
        [] \<Rightarrow> 0
      | c # r \<Rightarrow>
          if c = CHR ''e'' \<or> c = CHR ''E'' then
            (case r of
               [] \<Rightarrow> 0
             | d # r' \<Rightarrow>
                 if d = CHR ''-'' then - int (digitsVal (takeWhile isDigit r'))
                 else if d = CHR ''+'' then int (digitsVal (takeWhile isDigit r'))
                 else int (digitsVal (takeWhile isDigit r)))
          else 0)"

definition scale10 :: "rat \<Rightarrow> int \<Rightarrow> rat" where
  "scale10 q e = (if 0 \<le> e then q * 10 ^ nat e else q / 10 ^ nat (- e))"

definition unsignedLiteral :: "string \<Rightarrow> jsnum" where
  "unsignedLiteral s =
     (if startsWith s ''Infinity'' then PInf
      else
        let ip = takeWhile isDigit s;
            r1 = dropWhile isDigit s;
            hasDot = (r1 \<noteq> [] \<and> hd r1 = CHR ''.'');
            fp = (if hasDot then takeWhile isDigit (tl r1) else []);
            r2 = (if hasDot then dropWhile isDigit (tl r1) else r1)
        in if ip = [] \<and> fp = [] then NaN
           else toDouble (scale10 (of_nat (digitsVal (ip @ fp)) / 10 ^ length fp) (exponentOf r2)))"

definition parseFloat :: "string \<Rightarrow> jsnum" where
  "parseFloat s =
     (let t = dropWhile isWhite s in
      case t of
        [] \<Rightarrow> NaN
      | c # r \<Rightarrow>
          if c = CHR ''-'' then jneg (unsignedLiteral r)
          else if c = CHR ''+'' then unsignedLiteral r
          else unsignedLiteral t)"

section \<open>Reading the rate-limit headers\<close>

record RateWindowInfo =
  used_percent :: jsnum
  resets_in_seconds :: "jsnum option"

record RateLimits =
  primary :: "RateWindowInfo option"
  secondary :: "RateWindowInfo option"

type_synonym headers = "string \<rightharpoonup> string"

text \<open>
  \<^verbatim>\<open>String.prototype.toLowerCase\<close> on code units below 256: the letters \<^verbatim>\<open>A\<close> to \<^verbatim>\<open>Z\<close> and
  the capital letters from \<open>0xC0\<close> to \<open>0xDE\<close>, the multiplication sign \<open>0xD7\<close> excepted,
  move up by 32.
\<close>

definition lowerChar :: "char \<Rightarrow> char" where
  "lowerChar c =
     (let n = (of_char c :: nat)
      in if (65 \<le> n \<and> n \<le> 90) \<or> (192 \<le> n \<and> n \<le> 222 \<and> n \<noteq> 215)
         then char_of (n + 32) else c)"

definition toLowerCase :: "string \<Rightarrow> string" where
  "toLowerCase s = map lowerChar s"

text \<open>
  \<^verbatim>\<open>headers[name] || headers[name.toLowerCase()]\<close>: the second lookup is made when the first
  is missing or the empty string.
\<close>

definition headerValue :: "headers \<Rightarrow> string \<Rightarrow> string option" where
  "headerValue hs name =
     (case hs name of
        None \<Rightarrow> hs (toLowerCase name)
      | Some v \<Rightarrow> if v = [] then hs (toLowerCase name) else Some v)"

definition parseHeader :: "headers \<Rightarrow> string \<Rightarrow> jsnum option" where
  "parseHeader hs name =
     (case headerValue hs name of
        None \<Rightarrow> None
      | Some v \<Rightarrow>
          if v = [] then None
          else let n = parseFloat v in if isNaN n then None else Some n)"

text \<open>\<^verbatim>\<open>x || undefined\<close> for \<^verbatim>\<open>x\<close> of type \<^verbatim>\<open>number | null\<close>: a falsy number is dropped too.\<close>

definition orUndefined :: "jsnum option \<Rightarrow> jsnum option" where
  "orUndefined v = (if truthyOpt v then v else None)"

definition extractLimits :: "headers \<Rightarrow> RateLimits option" where
  "extractLimits hs =
     (let p = parseHeader hs ''x-codex-primary-used-percent'';
          lp = (case p of
                  None \<Rightarrow> None
                | Some pv \<Rightarrow>
                    Some \<lparr>used_percent = pv,
                          resets_in_seconds =
                            orUndefined (parseHeader hs ''x-codex-primary-reset-after-seconds'')\<rparr>);
          s = parseHeader hs ''x-codex-secondary-used-percent'';
          ls = (case s of
                  None \<Rightarrow> None
                | Some sv \<Rightarrow>
                    Some \<lparr>used_percent = sv,
                          resets_in_seconds =
                            orUndefined (parseHeader hs ''x-codex-secondary-reset-after-seconds'')\<rparr>)
      in if lp \<noteq> None \<or> ls \<noteq> None then Some \<lparr>primary = lp, secondary = ls\<rparr> else None)"

text \<open>
  \<^verbatim>\<open>pingCodex\<close>: the request itself is outside the model. Its outcome is an input: the
  headers of the response (of any status, also when axios raised with a response), or
  nothing at all when no response was received.
\<close>

definition pingCodex :: "headers option \<Rightarrow> RateLimits option" where
  "pingCodex resp = (case resp of None \<Rightarrow> None | Some hs \<Rightarrow> extractLimits hs)"

section \<open>The scheduler state\<close>

datatype window = Primary | Secondary

record AuthData =
  accessToken :: string
  accountId :: "string option"

text \<open>
  A timer made by \<^verbatim>\<open>setTimeout\<close> and neither fired nor cleared yet. Its callback is the one
  closure of \<^verbatim>\<open>schedulePing\<close>, which depends on \<^verbatim>\<open>type\<close> only. The delay is the one the
  code asks for and the clock reading is the one at creation; when the runtime lets the
  timer elapse is its own matter (Node replaces a delay above 2147483647 by 1), so a live
  timer may fire at any moment here.
\<close>

record timer =
  t_id :: nat
  t_type :: window
  t_delay :: jsnum
  t_set_at :: int

text \<open>
  A request in flight, with the code that runs when \<^verbatim>\<open>pingCodex\<close> resolves: the rest of
  \<^verbatim>\<open>checkLimits\<close>, the rest of a timer callback, or the \<^verbatim>\<open>then\<close> callback of an
  immediate ping.
\<close>

datatype cont = AfterCheck | AfterTimer window | AfterImmediate window

text \<open>
  The module's variables, then the runtime's: the live timers, the next fresh timer
  handle and the requests in flight. \<^verbatim>\<open>pingCount\<close> is an integer (a double in the source,
  exact below \<open>2 ^ 53\<close>).
\<close>

record state =
  primaryEnabled :: bool
  secondaryEnabled :: bool
  primaryResetTime :: "jsnum option"
  secondaryResetTime :: "jsnum option"
  primaryTimer :: "nat option"
  secondaryTimer :: "nat option"
  lastPingTime :: "int option"
  pingCount :: int
  lastLimits :: "RateLimits option"
  timers :: "timer list"
  nextId :: nat
  pending :: "cont list"

definition init_state :: state where
  "init_state =
     \<lparr>primaryEnabled = True, secondaryEnabled = True,
      primaryResetTime = None, secondaryResetTime = None,
      primaryTimer = None, secondaryTimer = None,
      lastPingTime = None, pingCount = 0, lastLimits = None,
      timers = [], nextId = 0, pending = []\<rparr>"

definition clearTimeout :: "nat \<Rightarrow> state \<Rightarrow> state" where
  "clearTimeout h st = st\<lparr>timers := filter (\<lambda>t. t_id t \<noteq> h) (timers st)\<rparr>"

definition setTimeout :: "window \<Rightarrow> jsnum \<Rightarrow> int \<Rightarrow> state \<Rightarrow> nat \<times> state" where
  "setTimeout w delay now st =
     (nextId st,
      st\<lparr>timers := timers st @ [\<lparr>t_id = nextId st, t_type = w, t_delay = delay, t_set_at = now\<rparr>],
         nextId := Suc (nextId st)\<rparr>)"

section \<open>schedulePing\<close>

text \<open>
  A call either returns or throws, and leaves a state behind in both cases. Nothing in
  the source catches what \<^verbatim>\<open>schedulePing\<close> throws: the exception ends the callback that
  made the call (the host logs it) and the module's variables stay as they are.
\<close>

datatype outcome = Returned state | Thrown state

fun stateOf :: "outcome \<Rightarrow> state" where
  "stateOf (Returned st) = st"
| "stateOf (Thrown st) = st"

fun threw :: "outcome \<Rightarrow> bool" where
  "threw (Returned st) = False"
| "threw (Thrown st) = True"

text \<open>
  \<^verbatim>\<open>new Date(t).toISOString()\<close> throws a RangeError unless \<open>t\<close> is a finite number of at most
  8640000000000000 in magnitude.
\<close>

definition validDate :: "jsnum \<Rightarrow> bool" where
  "validDate t = (case t of Fin q \<Rightarrow> \<bar>q\<bar> \<le> 8640000000000000 | _ \<Rightarrow> False)"

text \<open>
  \<^verbatim>\<open>now\<close> is the reading of \<^verbatim>\<open>Date.now()\<close> in this call (the \<^verbatim>\<open>new Date()\<close> of the
  immediate branch reads the same instant) and \<^verbatim>\<open>auth\<close> is what \<^verbatim>\<open>loadAuth()\<close> returns
  there. With a positive delay a timer is made and its handle stored, and the log line
  that follows formats the reset time as a date, which throws when it is not one;
  otherwise the ping is sent at once: the counter and the time are updated and the
  request is in flight.
\<close>

definition schedulePing :: "jsnum option \<Rightarrow> window \<Rightarrow> int \<Rightarrow> AuthData option \<Rightarrow> state \<Rightarrow> outcome" where
  "schedulePing resetTime type now auth st =
     (case resetTime of
        None \<Rightarrow> Returned st
      | Some rt \<Rightarrow>
          if \<not> truthy rt then Returned st
          else if type = Primary \<and> \<not> primaryEnabled st then Returned st
          else if type = Secondary \<and> \<not> secondaryEnabled st then Returned st
          else
            let delay = jmax (Fin 0) (jsub rt (Fin (of_int now))) in
            if jgt delay (Fin 0) then
              (case setTimeout type delay now st of
                 (h, st1) \<Rightarrow>
                   let st2 = (case type of
                                Primary \<Rightarrow> st1\<lparr>primaryTimer := Some h\<rparr>
                              | Secondary \<Rightarrow> st1\<lparr>secondaryTimer := Some h\<rparr>)
                   in if validDate rt then Returned st2 else Thrown st2)
            else
              (case auth of
                 None \<Rightarrow> Returned st
               | Some a \<Rightarrow>
                   Returned
                     (st\<lparr>pingCount := pingCount st + 1,
                         lastPingTime := Some now,
                         pending := pending st @ [AfterImmediate type]\<rparr>)))"

section \<open>Reconciling a snapshot\<close>

text \<open>
  \<^verbatim>\<open>limits.primary?.resets_in_seconds ? now + limits.primary.resets_in_seconds * 1000 : null\<close>,
  with \<^verbatim>\<open>now\<close> a reading of \<^verbatim>\<open>Date.now()\<close>, an integer that is a double.
\<close>

definition newReset :: "RateWindowInfo option \<Rightarrow> int \<Rightarrow> jsnum option" where
  "newReset w now =
     (case w of
        None \<Rightarrow> None
      | Some info \<Rightarrow>
          (case resets_in_seconds info of
             None \<Rightarrow> None
           | Some r \<Rightarrow>
               if truthy r then Some (jadd (Fin (of_int now)) (jmul r (Fin 1000))) else None))"

text \<open>
  The block that \<^verbatim>\<open>checkLimits\<close> and both callbacks of \<^verbatim>\<open>schedulePing\<close> run on a snapshot:
  \<^verbatim>\<open>lastLimits\<close> is replaced, then each window is compared and re-armed. \<^verbatim>\<open>now\<close> is the clock
  reading of the block; \<^verbatim>\<open>nowP\<close>, \<^verbatim>\<open>authP\<close> and \<^verbatim>\<open>nowS\<close>, \<^verbatim>\<open>authS\<close> are what the two calls of
  \<^verbatim>\<open>schedulePing\<close> read. When the call for the primary window throws, the block of the
  secondary window is not run.
\<close>

definition reconcile ::
  "RateLimits \<Rightarrow> int \<Rightarrow> int \<Rightarrow> AuthData option \<Rightarrow> int \<Rightarrow> AuthData option \<Rightarrow> state \<Rightarrow> outcome" where
  "reconcile limits now nowP authP nowS authS st =
     (let st1 = st\<lparr>lastLimits := Some limits\<rparr>;
          newPrimaryReset = newReset (primary limits) now;
          newSecondaryReset = newReset (secondary limits) now;
          r =
            (if strictNeq newPrimaryReset (primaryResetTime st1) then
               let a = (case primaryTimer st1 of None \<Rightarrow> st1 | Some h \<Rightarrow> clearTimeout h st1);
                   b = a\<lparr>primaryResetTime := newPrimaryReset\<rparr>
               in if primaryEnabled b then schedulePing newPrimaryReset Primary nowP authP b
                  else Returned b
             else Returned st1)
      in
        case r of
          Thrown st2 \<Rightarrow> Thrown st2
        | Returned st2 \<Rightarrow>
            if strictNeq newSecondaryReset (secondaryResetTime st2) then
              let a = (case secondaryTimer st2 of None \<Rightarrow> st2 | Some h \<Rightarrow> clearTimeout h st2);
                  b = a\<lparr>secondaryResetTime := newSecondaryReset\<rparr>
              in if secondaryEnabled b then schedulePing newSecondaryReset Secondary nowS authS b
                 else Returned b
            else Returned st2)"

section \<open>The entry points\<close>

text \<open>
  \<^verbatim>\<open>checkLimits\<close> up to its \<^verbatim>\<open>await\<close>: without credentials nothing happens, with them a
  request is in flight.
\<close>

definition checkLimits :: "AuthData option \<Rightarrow> state \<Rightarrow> state" where
  "checkLimits auth st =
     (case auth of
        None \<Rightarrow> st
      | Some a \<Rightarrow> st\<lparr>pending := pending st @ [AfterCheck]\<rparr>)"

text \<open>
  What runs once \<^verbatim>\<open>pingCodex\<close> has resolved with \<^verbatim>\<open>limits\<close>. The last two lines of a timer
  callback, which set the handle of its window to null, are not reached when the block
  has thrown.
\<close>

definition resume ::
  "cont \<Rightarrow> RateLimits option \<Rightarrow> int \<Rightarrow> int \<Rightarrow> AuthData option \<Rightarrow> int \<Rightarrow> AuthData option
     \<Rightarrow> state \<Rightarrow> state" where
  "resume k limits now nowP authP nowS authS st =
     (let r = (case limits of
                 None \<Rightarrow> Returned st
               | Some l \<Rightarrow> reconcile l now nowP authP nowS authS st)
      in case r of
           Thrown st1 \<Rightarrow> st1
         | Returned st1 \<Rightarrow>
             (case k of
                AfterCheck \<Rightarrow> st1
              | AfterImmediate w \<Rightarrow> st1
              | AfterTimer Primary \<Rightarrow> st1\<lparr>primaryTimer := None\<rparr>
              | AfterTimer Secondary \<Rightarrow> st1\<lparr>secondaryTimer := None\<rparr>))"

text \<open>
  The request at position \<^verbatim>\<open>i\<close> of those in flight resolves: with the headers of a response,
  or with nothing when no response came.
\<close>

definition resolve ::
  "nat \<Rightarrow> headers option \<Rightarrow> int \<Rightarrow> int \<Rightarrow> AuthData option \<Rightarrow> int \<Rightarrow> AuthData option
     \<Rightarrow> state \<Rightarrow> state" where
  "resolve i resp now nowP authP nowS authS st =
     (if i < length (pending st) then
        resume (pending st ! i) (pingCodex resp) now nowP authP nowS authS
          (st\<lparr>pending := take i (pending st) @ drop (Suc i) (pending st)\<rparr>)
      else st)"

text \<open>
  The live timer with handle \<^verbatim>\<open>h\<close> elapses and its callback runs up to the \<^verbatim>\<open>await\<close>. Without
  credentials the callback goes straight to its last two lines.
\<close>

definition fire :: "nat \<Rightarrow> AuthData option \<Rightarrow> int \<Rightarrow> state \<Rightarrow> state" where
  "fire h auth now st =
     (case find (\<lambda>t. t_id t = h) (timers st) of
        None \<Rightarrow> st
      | Some t \<Rightarrow>
          let st1 = st\<lparr>timers := filter (\<lambda>t. t_id t \<noteq> h) (timers st)\<rparr> in
          (case auth of
             None \<Rightarrow>
               (case t_type t of
                  Primary \<Rightarrow> st1\<lparr>primaryTimer := None\<rparr>
                | Secondary \<Rightarrow> st1\<lparr>secondaryTimer := None\<rparr>)
           | Some a \<Rightarrow>
               st1\<lparr>pingCount := pingCount st1 + 1,
                   lastPingTime := Some now,
                   pending := pending st1 @ [AfterTimer (t_type t)]\<rparr>))"

text \<open>
  The message handler of the panel: \<^verbatim>\<open>togglePrimary\<close> and \<^verbatim>\<open>toggleSecondary\<close> with
  \<^verbatim>\<open>message.enabled\<close>. The call of \<^verbatim>\<open>schedulePing\<close> is its last statement, so the state is
  the same whether the call returns or throws.
\<close>

definition toggle :: "window \<Rightarrow> bool \<Rightarrow> int \<Rightarrow> AuthData option \<Rightarrow> state \<Rightarrow> state" where
  "toggle w enabled now auth st =
     (case w of
        Primary \<Rightarrow>
          (let st1 = st\<lparr>primaryEnabled := enabled\<rparr> in
           case (if \<not> primaryEnabled st1 then primaryTimer st1 else None) of
             Some h \<Rightarrow> (clearTimeout h st1)\<lparr>primaryTimer := None\<rparr>
           | None \<Rightarrow>
               if primaryEnabled st1 \<and> truthyOpt (primaryResetTime st1)
               then stateOf (schedulePing (primaryResetTime st1) Primary now auth st1)
               else st1)
      | Secondary \<Rightarrow>
          (let st1 = st\<lparr>secondaryEnabled := enabled\<rparr> in
           case (if \<not> secondaryEnabled st1 then secondaryTimer st1 else None) of
             Some h \<Rightarrow> (clearTimeout h st1)\<lparr>secondaryTimer := None\<rparr>
           | None \<Rightarrow>
               if secondaryEnabled st1 \<and> truthyOpt (secondaryResetTime st1)
               then stateOf (schedulePing (secondaryResetTime st1) Secondary now auth st1)
               else st1))"

section \<open>Runs\<close>

datatype event =
    CheckLimits "AuthData option"
  | Resolve nat "headers option" int int "AuthData option" int "AuthData option"
  | Fire nat "AuthData option" int
  | Toggle window bool int "AuthData option"

fun step :: "event \<Rightarrow> state \<Rightarrow> state" where
  "step (CheckLimits auth) st = checkLimits auth st"
| "step (Resolve i resp now nowP authP nowS authS) st = resolve i resp now nowP authP nowS authS st"
| "step (Fire h auth now) st = fire h auth now st"
| "step (Toggle w enabled now auth) st = toggle w enabled now auth st"

fun run :: "event list \<Rightarrow> state \<Rightarrow> state" where
  "run [] st = st"
| "run (e # es) st = run es (step e st)"

text \<open>The variables of one window, and its live timers.\<close>

fun resetTimeOf :: "window \<Rightarrow> state \<Rightarrow> jsnum option" where
  "resetTimeOf Primary st = primaryResetTime st"
| "resetTimeOf Secondary st = secondaryResetTime st"

fun timerOf :: "window \<Rightarrow> state \<Rightarrow> nat option" where
  "timerOf Primary st = primaryTimer st"
| "timerOf Secondary st = secondaryTimer st"

fun enabledOf :: "window \<Rightarrow> state \<Rightarrow> bool" where
  "enabledOf Primary st = primaryEnabled st"
| "enabledOf Secondary st = secondaryEnabled st"

definition liveTimers :: "window \<Rightarrow> state \<Rightarrow> timer list" where
  "liveTimers w st = filter (\<lambda>t. t_type t = w) (timers st)"

section \<open>Vocabulary of the properties\<close>

text \<open>
  The source writes the same block once for each window. The definitions below name one
  window's share of it, so that a property can be stated for either window;
  \<open>reconcileWindow\<close> is shown to compose to \<open>reconcile\<close> (lemma \<open>reconcile_eq\<close>) before
  it is used.
\<close>

fun setTimer :: "window \<Rightarrow> nat option \<Rightarrow> state \<Rightarrow> state" where
  "setTimer Primary v st = st\<lparr>primaryTimer := v\<rparr>"
| "setTimer Secondary v st = st\<lparr>secondaryTimer := v\<rparr>"

fun setResetTime :: "window \<Rightarrow> jsnum option \<Rightarrow> state \<Rightarrow> state" where
  "setResetTime Primary v st = st\<lparr>primaryResetTime := v\<rparr>"
| "setResetTime Secondary v st = st\<lparr>secondaryResetTime := v\<rparr>"

fun setSwitch :: "window \<Rightarrow> bool \<Rightarrow> state \<Rightarrow> state" where
  "setSwitch Primary v st = st\<lparr>primaryEnabled := v\<rparr>"
| "setSwitch Secondary v st = st\<lparr>secondaryEnabled := v\<rparr>"

definition reconcileWindow :: "window \<Rightarrow> jsnum option \<Rightarrow> int \<Rightarrow> AuthData option \<Rightarrow> state \<Rightarrow> state" where
  "reconcileWindow w cand nowW authW st =
     (if strictNeq cand (resetTimeOf w st) then
        let a = (case timerOf w st of None \<Rightarrow> st | Some h \<Rightarrow> clearTimeout h st);
            b = setResetTime w cand a
        in if enabledOf w b then stateOf (schedulePing cand w nowW authW b) else b
      else st)"

text \<open>
  The call \<^verbatim>\<open>schedulePing(cand, w)\<close> throws: it makes a timer for a reset time that is
  not a valid date. The block of a window throws when it makes that call.
\<close>

definition armingThrows :: "jsnum option \<Rightarrow> window \<Rightarrow> int \<Rightarrow> state \<Rightarrow> bool" where
  "armingThrows cand w nowW st =
     (case cand of
        None \<Rightarrow> False
      | Some c \<Rightarrow>
          truthy c \<and> enabledOf w st \<and> jgt (jsub c (Fin (of_int nowW))) (Fin 0) \<and> \<not> validDate c)"

definition blockThrows :: "window \<Rightarrow> jsnum option \<Rightarrow> int \<Rightarrow> state \<Rightarrow> bool" where
  "blockThrows w cand nowW st = (strictNeq cand (resetTimeOf w st) \<and> armingThrows cand w nowW st)"

text \<open>
  The block of the window is reached in \<open>reconcile\<close>: always for the primary window, and
  for the secondary one unless the block of the primary window throws.
\<close>

definition blockReached :: "window \<Rightarrow> RateLimits \<Rightarrow> int \<Rightarrow> int \<Rightarrow> state \<Rightarrow> bool" where
  "blockReached w l now nowP st =
     (case w of
        Primary \<Rightarrow> True
      | Secondary \<Rightarrow> \<not> blockThrows Primary (newReset (primary l) now) nowP st)"

text \<open>The number of immediate pings of a window that are in flight.\<close>

definition immediates :: "window \<Rightarrow> state \<Rightarrow> nat" where
  "immediates w st = count_list (pending st) (AfterImmediate w)"

text \<open>The argument of the window's own call, out of the two that \<open>reconcile\<close> takes.\<close>

fun pick :: "window \<Rightarrow> 'a \<Rightarrow> 'a \<Rightarrow> 'a" where
  "pick Primary p s = p"
| "pick Secondary p s = s"

text \<open>The entry of a window in a snapshot, and in the result of a read that may be null.\<close>

fun windowInfo :: "window \<Rightarrow> RateLimits \<Rightarrow> RateWindowInfo option" where
  "windowInfo Primary l = primary l"
| "windowInfo Secondary l = secondary l"

definition windowOf :: "window \<Rightarrow> RateLimits option \<Rightarrow> RateWindowInfo option" where
  "windowOf w r = (case r of None \<Rightarrow> None | Some l \<Rightarrow> windowInfo w l)"

text \<open>The snapshot has no \<^verbatim>\<open>resets_in_seconds\<close> for the window.\<close>

definition resetsAbsent :: "window \<Rightarrow> RateLimits \<Rightarrow> bool" where
  "resetsAbsent w l =
     (case windowInfo w l of None \<Rightarrow> True | Some info \<Rightarrow> resets_in_seconds info = None)"

text \<open>The names of the two headers of a window.\<close>

fun usedHeader :: "window \<Rightarrow> string" where
  "usedHeader Primary = ''x-codex-primary-used-percent''"
| "usedHeader Secondary = ''x-codex-secondary-used-percent''"

fun resetHeader :: "window \<Rightarrow> string" where
  "resetHeader Primary = ''x-codex-primary-reset-after-seconds''"
| "resetHeader Secondary = ''x-codex-secondary-reset-after-seconds''"

text \<open>
  \<^verbatim>\<open>if (timer) clearTimeout(timer)\<close> on the handle of a window, and the window's live timers
  that it leaves.
\<close>

definition dropHandle :: "window \<Rightarrow> state \<Rightarrow> state" where
  "dropHandle w st = st\<lparr>timers := filter (\<lambda>t. Some (t_id t) \<noteq> timerOf w st) (timers st)\<rparr>"

definition cancelled :: "window \<Rightarrow> state \<Rightarrow> timer list" where
  "cancelled w st = filter (\<lambda>t. Some (t_id t) \<noteq> timerOf w st) (liveTimers w st)"

text \<open>
  What every reachable state satisfies: the handles of the live timers and those in the
  two variables have been handed out already, and a handle in the variable of a window
  is not the handle of a live timer of the other window.
\<close>

definition handleOk :: "window \<Rightarrow> state \<Rightarrow> bool" where
  "handleOk w st =
     (case timerOf w st of
        None \<Rightarrow> True
      | Some h \<Rightarrow> h < nextId st \<and> list_all (\<lambda>t. t_id t = h \<longrightarrow> t_type t = w) (timers st))"

definition wf :: "state \<Rightarrow> bool" where
  "wf st = (list_all (\<lambda>t. t_id t < nextId st) (timers st) \<and> handleOk Primary st \<and> handleOk Secondary st)"

section \<open>Concrete inputs\<close>

definition auth0 :: AuthData where
  "auth0 = \<lparr>accessToken = ''token'', accountId = None\<rparr>"

definition headersBoth :: headers where
  "headersBoth =
     [''x-codex-primary-used-percent'' \<mapsto> ''10'',
      ''x-codex-primary-reset-after-seconds'' \<mapsto> ''300'',
      ''x-codex-secondary-used-percent'' \<mapsto> ''20'',
      ''x-codex-secondary-reset-after-seconds'' \<mapsto> ''600'']"

definition headersNone :: headers where
  "headersNone = [''content-type'' \<mapsto> ''text/event-stream'']"

definition headersPrimaryOnly :: headers where
  "headersPrimaryOnly =
     [''x-codex-primary-used-percent'' \<mapsto> ''35'',
      ''x-codex-primary-reset-after-seconds'' \<mapsto> ''300'']"

definition headersZeroReset :: headers where
  "headersZeroReset =
     [''x-codex-primary-used-percent'' \<mapsto> ''100'',
      ''x-codex-primary-reset-after-seconds'' \<mapsto> ''0'']"

definition headersOver :: headers where
  "headersOver =
     [''x-codex-primary-used-percent'' \<mapsto> ''150'',
      ''x-codex-secondary-used-percent'' \<mapsto> ''-3'']"

definition headersNoPrimaryReset :: headers where
  "headersNoPrimaryReset =
     [''x-codex-primary-used-percent'' \<mapsto> ''12'',
      ''x-codex-secondary-used-percent'' \<mapsto> ''20'',
      ''x-codex-secondary-reset-after-seconds'' \<mapsto> ''540'']"

definition headersNegativeReset :: headers where
  "headersNegativeReset =
     [''x-codex-primary-used-percent'' \<mapsto> ''10'',
      ''x-codex-primary-reset-after-seconds'' \<mapsto> ''-1700000000'']"

definition headersAfterPrimary :: headers where
  "headersAfterPrimary =
     [''x-codex-primary-used-percent'' \<mapsto> ''0'',
      ''x-codex-primary-reset-after-seconds'' \<mapsto> ''18000'',
      ''x-codex-secondary-used-percent'' \<mapsto> ''20'',
      ''x-codex-secondary-reset-after-seconds'' \<mapsto> ''300'']"

definition headersAfterSecondary :: headers where
  "headersAfterSecondary =
     [''x-codex-primary-used-percent'' \<mapsto> ''1'',
      ''x-codex-primary-reset-after-seconds'' \<mapsto> ''17700'',
      ''x-codex-secondary-used-percent'' \<mapsto> ''0'',
      ''x-codex-secondary-reset-after-seconds'' \<mapsto> ''604800'']"

text \<open>
  The state after the first poll at time 0 has answered with \<open>headersBoth\<close>: both windows
  are armed, the primary for 300000 and the secondary for 600000.
\<close>

definition armed_state :: state where
  "armed_state =
     run [CheckLimits (Some auth0), Resolve 0 (Some headersBoth) 0 0 (Some auth0) 0 (Some auth0)]
       init_state"


text \<open>
  The primary timer fires at its deadline and the reply re-arms the primary window.
\<close>

definition primary_fired :: "event list" where
  "primary_fired =
     [Fire 0 (Some auth0) 300000,
      Resolve 0 (Some headersAfterPrimary) 300000 300000 (Some auth0) 300000 (Some auth0)]"

text \<open>
  Then the secondary timer fires and the reply carries a primary reset time that differs
  by a quarter of a second.
\<close>

definition secondary_fired :: "event list" where
  "secondary_fired =
     [Fire 1 (Some auth0) 600250,
      Resolve 0 (Some headersAfterSecondary) 600250 600250 (Some auth0) 600250 (Some auth0)]"

section \<open>Basic facts\<close>

subsection \<open>Integers below \<open>2 ^ 53\<close> are doubles\<close>

lemma of_int_pow2_bounds:
  assumes "0 < (n::int)"
  shows "(2::rat) powi (bitlen n - 1) \<le> of_int n" and "of_int n < (2::rat) powi (bitlen n)"
proof -
  have b: "2 ^ nat (bitlen n - 1) \<le> n" "n < 2 ^ nat (bitlen n)"
    using bitlen_bounds [OF assms] by simp_all
  have p: "0 < bitlen n" using assms by (simp add: bitlen_alt_def)
  have "(of_int (2 ^ nat (bitlen n - 1)) :: rat) \<le> of_int n"
    using b(1) by (simp only: of_int_le_iff)
  then have "(2::rat) ^ nat (bitlen n - 1) \<le> of_int n" by simp
  then show "(2::rat) powi (bitlen n - 1) \<le> of_int n"
    using p by (simp add: power_int_def)
  have "(of_int n :: rat) < of_int (2 ^ nat (bitlen n))"
    using b(2) by (simp only: of_int_less_iff)
  then have "of_int n < (2::rat) ^ nat (bitlen n)" by simp
  then show "of_int n < (2::rat) powi (bitlen n)"
    using p by (simp add: power_int_def)
qed

lemma binaryExponent_bounds:
  assumes "0 < x"
  shows "2 powi binaryExponent x \<le> x" and "x < 2 powi (binaryExponent x + 1)"
proof -
  obtain n d where q: "quotient_of x = (n, d)" by (cases "quotient_of x")
  then have d: "0 < d" and x: "x = of_int n / of_int d"
    using quotient_of_denom_pos quotient_of_div by blast+
  with assms have n: "0 < n" by (simp add: zero_less_divide_iff)
  let ?g = "bitlen n - bitlen d"
  note bn = of_int_pow2_bounds [OF n] and bd = of_int_pow2_bounds [OF d]
  have dpos: "(0::rat) < of_int d" using d by simp
  have "x < 2 powi bitlen n / of_int d"
    unfolding x using bn(2) dpos by (rule divide_strict_right_mono)
  also have "\<dots> \<le> 2 powi bitlen n / 2 powi (bitlen d - 1)"
    using bd(1) dpos by (intro divide_left_mono) (simp_all add: zero_less_mult_iff)
  also have "\<dots> = 2 powi (bitlen n - (bitlen d - 1))"
    by (simp only: power_int_diff [of "2::rat", simplified])
  also have "bitlen n - (bitlen d - 1) = ?g + 1" by simp
  finally have up: "x < 2 powi (?g + 1)" .
  have "?g - 1 = (bitlen n - 1) - bitlen d" by simp
  then have "(2::rat) powi (?g - 1) = 2 powi ((bitlen n - 1) - bitlen d)" by (rule arg_cong)
  also have "\<dots> = 2 powi (bitlen n - 1) / 2 powi bitlen d"
    by (simp only: power_int_diff [of "2::rat", simplified])
  also have "\<dots> < 2 powi (bitlen n - 1) / of_int d"
    using bd(2) dpos by (intro divide_strict_left_mono) simp_all
  also have "\<dots> \<le> x"
    unfolding x using bn(1) dpos by (intro divide_right_mono) simp_all
  finally have lo: "2 powi (?g - 1) < x" .
  have e: "binaryExponent x = (if 2 powi ?g \<le> x then ?g else ?g - 1)"
    by (simp add: binaryExponent_def q Let_def)
  show "2 powi binaryExponent x \<le> x"
    using lo by (simp add: e)
  show "x < 2 powi (binaryExponent x + 1)"
    using up by (simp add: e)
qed

lemma pow2_less_D: "(2::rat) powi m < 2 powi n \<Longrightarrow> m < n"
proof (rule ccontr)
  assume a: "(2::rat) powi m < 2 powi n" and "\<not> m < n"
  then have "n \<le> m" by simp
  then have "(2::rat) powi n \<le> 2 powi m" by (rule power_int_increasing) simp
  with a show False by simp
qed

lemma roundHalfEven_of_int [simp]: "roundHalfEven (of_int k) = k"
  by (simp add: roundHalfEven_def)

lemma roundMagnitude_of_int:
  assumes "0 < n" and "n < 9007199254740992"
  shows "roundMagnitude (of_int n) = of_int n"
proof -
  define a :: rat where "a = of_int n"
  define e where "e = binaryExponent a"
  have a: "0 < a" using assms(1) by (simp add: a_def)
  have "(of_int 1 :: rat) \<le> of_int n" using assms(1) by simp
  then have one: "1 \<le> a" by (simp add: a_def)
  have "(of_int n :: rat) < of_int 9007199254740992"
    using assms(2) by (simp only: of_int_less_iff)
  then have lt: "a < 2 powi 53" by (simp add: a_def)
  note b = binaryExponent_bounds [OF a, folded e_def]
  have "(2::rat) powi 0 < 2 powi (e + 1)" using one b(2) by simp
  then have "0 < e + 1" by (rule pow2_less_D)
  then have e0: "0 \<le> e" by simp
  have "(2::rat) powi e < 2 powi 53" using b(1) lt by simp
  then have "e < 53" by (rule pow2_less_D)
  then have e52: "e \<le> 52" by simp
  have p: "max (e - 52) (- 1074) = e - 52" using e0 by simp
  have up: "(2::rat) powi (52 - e) = 2 ^ nat (52 - e)"
    using e52 by (simp add: power_int_def)
  have "e - 52 = - (52 - e)" by simp
  then have "(2::rat) powi (e - 52) = 2 powi (- (52 - e))" by (rule arg_cong)
  also have "\<dots> = inverse (2 ^ nat (52 - e))"
    by (simp only: power_int_minus up)
  finally have dn: "(2::rat) powi (e - 52) = inverse (2 ^ nat (52 - e))" .
  have "a / 2 powi (e - 52) = of_int (n * 2 ^ nat (52 - e))"
    by (simp add: dn a_def divide_inverse)
  then have r: "roundHalfEven (a / 2 powi (e - 52)) = n * 2 ^ nat (52 - e)"
    by (simp only: roundHalfEven_of_int)
  have "roundMagnitude a = of_int (n * 2 ^ nat (52 - e)) * 2 powi (e - 52)"
    by (simp only: roundMagnitude_def Let_def p r flip: e_def)
  also have "\<dots> = a"
    by (simp add: dn a_def)
  finally show ?thesis by (simp only: a_def)
qed

lemma toDouble_of_int:
  assumes "\<bar>n\<bar> < 9007199254740992"
  shows "toDouble (of_int n) = Fin (of_int n)"
proof -
  consider "n = 0" | "0 < n" | "n < 0" by linarith
  then show ?thesis
  proof cases
    case 1
    then show ?thesis by (simp add: toDouble_def)
  next
    case 2
    with assms have r: "roundMagnitude (of_int n) = of_int n"
      by (intro roundMagnitude_of_int) simp_all
    have "(of_int n :: rat) < of_int 9007199254740992"
      using assms 2 by simp
    then have "\<not> (2 powi 1024 \<le> (of_int n :: rat))" by simp
    with 2 show ?thesis by (simp add: toDouble_def Let_def r)
  next
    case 3
    with assms have r: "roundMagnitude (of_int (- n)) = of_int (- n)"
      by (intro roundMagnitude_of_int) simp_all
    have "(of_int (- n) :: rat) < of_int 9007199254740992"
      using assms 3 by simp
    then have "\<not> (2 powi 1024 \<le> (of_int (- n) :: rat))" by simp
    with 3 r show ?thesis by (simp add: toDouble_def Let_def abs_if)
  qed
qed

lemma toDouble_numeral:
  "(numeral k :: int) < 9007199254740992 \<Longrightarrow> toDouble (numeral k) = Fin (numeral k)"
  "(numeral k :: int) < 9007199254740992 \<Longrightarrow> toDouble (- numeral k) = Fin (- numeral k)"
  "toDouble 0 = Fin 0" "toDouble 1 = Fin 1"
  using toDouble_of_int [of "numeral k"] toDouble_of_int [of "- numeral k"]
    toDouble_of_int [of 0] toDouble_of_int [of 1]
  by simp_all

lemma toDouble_not_NaN: "toDouble x \<noteq> NaN"
  by (simp add: toDouble_def Let_def)

subsection \<open>Rounding in the normal range\<close>

lemma binaryExponent_eq:
  assumes "0 < x" "2 powi e \<le> x" "x < 2 powi (e + 1)"
  shows "binaryExponent x = e"
proof -
  from binaryExponent_bounds [OF assms(1)]
  have b: "2 powi binaryExponent x \<le> x" "x < 2 powi (binaryExponent x + 1)" by simp_all
  from b(1) assms(3) have "(2::rat) powi binaryExponent x < 2 powi (e + 1)" by simp
  then have 1: "binaryExponent x < e + 1" by (rule pow2_less_D)
  from assms(2) b(2) have "(2::rat) powi e < 2 powi (binaryExponent x + 1)" by simp
  then have 2: "e < binaryExponent x + 1" by (rule pow2_less_D)
  from 1 2 show ?thesis by simp
qed

lemma roundHalfEven_near:
  assumes "\<bar>x - of_int n\<bar> < 1 / 2"
  shows "roundHalfEven x = n"
proof (cases "of_int n \<le> x")
  case True
  with assms have "x < of_int n + 1" by simp
  with True have f: "\<lfloor>x\<rfloor> = n" by (simp add: floor_unique)
  from assms True have "x - of_int n < 1 / 2" by simp
  then show ?thesis by (simp add: roundHalfEven_def Let_def f)
next
  case False
  with assms have "of_int (n - 1) \<le> x" "x < of_int (n - 1) + 1" by simp_all
  then have f: "\<lfloor>x\<rfloor> = n - 1" by (rule floor_unique)
  from assms False have "1 / 2 < x - of_int (n - 1)" by simp
  then show ?thesis by (simp add: roundHalfEven_def Let_def f)
qed

lemma toDouble_normal:
  assumes "0 < x" "2 powi e \<le> x" "x < 2 powi (e + 1)" "- 1022 \<le> e"
    and "roundHalfEven (x / 2 powi (e - 52)) = n"
    and "of_int n * 2 powi (e - 52) < (2::rat) powi 1024"
  shows "toDouble x = Fin (of_int n * 2 powi (e - 52))"
proof -
  have e: "binaryExponent x = e" using assms(1-3) by (rule binaryExponent_eq)
  have m: "max (e - 52) (- 1074) = e - 52" using assms(4) by simp
  have "roundMagnitude x = of_int n * 2 powi (e - 52)"
    by (simp only: roundMagnitude_def e m Let_def assms(5))
  with assms(1,6) show ?thesis
    by (simp add: toDouble_def Let_def)
qed

subsection \<open>The calls and the blocks\<close>

lemma outcome_eq:
  "r = (if threw r then Thrown (stateOf r) else Returned (stateOf r))"
  by (cases r) simp_all

lemma jgt_jmax: "jgt (jmax (Fin 0) d) (Fin 0) = jgt d (Fin 0)"
  by (cases d) (auto simp: jmax_def)

lemma jmax_pos: "jgt d (Fin 0) \<Longrightarrow> jmax (Fin 0) d = d"
  by (cases d) (auto simp: jmax_def)

lemma newReset_not_NaN: "newReset w now \<noteq> Some NaN"
proof -
  have m: "jmul r (Fin 1000) \<noteq> NaN" if "truthy r" for r
    using that by (cases r) (auto simp: truthy_def toDouble_not_NaN)
  have "jadd (Fin a) x \<noteq> NaN" if "x \<noteq> NaN" for a x
    using that by (cases x) (simp_all add: toDouble_not_NaN)
  with m have "jadd (Fin a) (jmul r (Fin 1000)) \<noteq> NaN" if "truthy r" for a r
    using that by blast
  then show ?thesis
    by (auto simp: newReset_def split: option.splits)
qed

lemma schedulePing_skip:
  "\<not> (truthyOpt rt \<and> enabledOf w st) \<Longrightarrow> schedulePing rt w now auth st = Returned st"
  by (cases w) (auto simp: schedulePing_def truthyOpt_def split: option.splits)

lemma schedulePing_timer:
  assumes "truthy c" "enabledOf w st" "jgt (jsub c (Fin (of_int now))) (Fin 0)"
  shows "stateOf (schedulePing (Some c) w now auth st) =
    setTimer w (Some (nextId st))
      (st\<lparr>timers := timers st @
            [\<lparr>t_id = nextId st, t_type = w, t_delay = jsub c (Fin (of_int now)), t_set_at = now\<rparr>],
          nextId := Suc (nextId st)\<rparr>)"
    and "threw (schedulePing (Some c) w now auth st) = (\<not> validDate c)"
  using assms by (cases w; auto simp: schedulePing_def jgt_jmax jmax_pos setTimeout_def Let_def)+

lemma schedulePing_immediate:
  assumes "truthy c" "enabledOf w st" "\<not> jgt (jsub c (Fin (of_int now))) (Fin 0)"
  shows "schedulePing (Some c) w now auth st =
    Returned (case auth of
       None \<Rightarrow> st
     | Some a \<Rightarrow> st\<lparr>pingCount := pingCount st + 1, lastPingTime := Some now,
                    pending := pending st @ [AfterImmediate w]\<rparr>)"
  using assms by (cases w) (auto simp: schedulePing_def jgt_jmax Let_def split: option.splits)

lemma schedulePing_threw:
  "threw (schedulePing rt w now auth st) = armingThrows rt w now st"
proof (cases "truthyOpt rt \<and> enabledOf w st")
  case False
  then show ?thesis
    by (auto simp: schedulePing_skip armingThrows_def truthyOpt_def split: option.splits)
next
  case True
  then obtain c where c: "rt = Some c" "truthy c" "enabledOf w st"
    by (cases rt) (auto simp: truthyOpt_def)
  show ?thesis
    by (cases "jgt (jsub c (Fin (of_int now))) (Fin 0)")
      (simp_all add: c armingThrows_def schedulePing_timer(2) [OF c(2,3)]
        schedulePing_immediate [OF c(2,3)])
qed


lemma block_outcome:
  "(if strictNeq cand (resetTimeOf w st) then
      let a = (case timerOf w st of None \<Rightarrow> st | Some h \<Rightarrow> clearTimeout h st);
          b = setResetTime w cand a
      in if enabledOf w b then schedulePing cand w nowW authW b else Returned b
    else Returned st) =
   (if blockThrows w cand nowW st then Thrown (reconcileWindow w cand nowW authW st)
    else Returned (reconcileWindow w cand nowW authW st))"
proof (cases "strictNeq cand (resetTimeOf w st)")
  case False
  then show ?thesis by (simp add: blockThrows_def reconcileWindow_def)
next
  case True
  define b where "b = setResetTime w cand (case timerOf w st of None \<Rightarrow> st | Some h \<Rightarrow> clearTimeout h st)"
  have en: "enabledOf w b = enabledOf w st"
    by (cases w; cases "timerOf w st") (simp_all add: b_def clearTimeout_def)
  then have at: "armingThrows cand w nowW b = armingThrows cand w nowW st"
    by (cases cand) (simp_all add: armingThrows_def)
  have rw: "reconcileWindow w cand nowW authW st =
      (if enabledOf w b then stateOf (schedulePing cand w nowW authW b) else b)"
    using True by (simp add: reconcileWindow_def b_def Let_def)
  show ?thesis
  proof (cases "enabledOf w b")
    case False
    with en have "\<not> armingThrows cand w nowW st"
      by (auto simp: armingThrows_def split: option.splits)
    with True False show ?thesis
      by (simp add: rw blockThrows_def Let_def flip: b_def)
  next
    case en': True
    have "schedulePing cand w nowW authW b =
        (if armingThrows cand w nowW st then Thrown (stateOf (schedulePing cand w nowW authW b))
         else Returned (stateOf (schedulePing cand w nowW authW b)))"
      using outcome_eq [of "schedulePing cand w nowW authW b"]
      by (simp only: schedulePing_threw at)
    with True en' show ?thesis
      by (auto simp: rw blockThrows_def Let_def simp flip: b_def)
  qed
qed

lemma reconcile_eq:
  "reconcile limits now nowP authP nowS authS st =
     (let s0 = st\<lparr>lastLimits := Some limits\<rparr>;
          candP = newReset (primary limits) now;
          candS = newReset (secondary limits) now;
          s1 = reconcileWindow Primary candP nowP authP s0
      in if blockThrows Primary candP nowP s0 then Thrown s1
         else
           let s2 = reconcileWindow Secondary candS nowS authS s1
           in if blockThrows Secondary candS nowS s1 then Thrown s2 else Returned s2)"
proof -
  note p = block_outcome [where w = Primary, unfolded resetTimeOf.simps timerOf.simps
      enabledOf.simps setResetTime.simps Let_def]
  note q = block_outcome [where w = Secondary, unfolded resetTimeOf.simps timerOf.simps
      enabledOf.simps setResetTime.simps Let_def]
  show ?thesis
    unfolding reconcile_def Let_def p
    by (simp add: q)
qed

lemma clear_handle:
  "(case timerOf w st of None \<Rightarrow> st | Some h \<Rightarrow> clearTimeout h st) = dropHandle w st"
  by (cases "timerOf w st") (auto simp: clearTimeout_def dropHandle_def)

lemma reconcileWindow_same:
  "cand = resetTimeOf w st \<Longrightarrow> cand \<noteq> Some NaN \<Longrightarrow> reconcileWindow w cand nowW authW st = st"
  by (simp add: reconcileWindow_def strictNeq_def)

lemma reconcileWindow_timer:
  assumes "cand \<noteq> resetTimeOf w st" "cand = Some c" "truthy c" "enabledOf w st"
    "jgt (jsub c (Fin (of_int nowW))) (Fin 0)"
  shows "reconcileWindow w cand nowW authW st =
    setTimer w (Some (nextId st))
      ((setResetTime w cand (dropHandle w st))
         \<lparr>timers := timers (dropHandle w st) @
            [\<lparr>t_id = nextId st, t_type = w, t_delay = jsub c (Fin (of_int nowW)), t_set_at = nowW\<rparr>],
          nextId := Suc (nextId st)\<rparr>)"
proof -
  let ?b = "setResetTime w cand (dropHandle w st)"
  have en: "enabledOf w ?b" using assms(4) by (cases w) (simp_all add: dropHandle_def)
  have nx: "nextId ?b = nextId st" and tm: "timers ?b = timers (dropHandle w st)"
    by (cases w; simp add: dropHandle_def)+
  have "reconcileWindow w cand nowW authW st = stateOf (schedulePing (Some c) w nowW authW ?b)"
    using assms(1,2) en by (simp add: reconcileWindow_def strictNeq_def clear_handle)
  also have "\<dots> = setTimer w (Some (nextId ?b))
      (?b\<lparr>timers := timers ?b @
            [\<lparr>t_id = nextId ?b, t_type = w, t_delay = jsub c (Fin (of_int nowW)), t_set_at = nowW\<rparr>],
          nextId := Suc (nextId ?b)\<rparr>)"
    by (rule schedulePing_timer(1) [OF assms(3) en assms(5)])
  finally show ?thesis by (simp only: nx tm)
qed

lemma reconcileWindow_immediate:
  assumes "cand \<noteq> resetTimeOf w st" "cand = Some c" "truthy c" "enabledOf w st"
    "\<not> jgt (jsub c (Fin (of_int nowW))) (Fin 0)"
  shows "reconcileWindow w cand nowW authW st =
    (case authW of
       None \<Rightarrow> setResetTime w cand (dropHandle w st)
     | Some a \<Rightarrow> (setResetTime w cand (dropHandle w st))
          \<lparr>pingCount := pingCount st + 1, lastPingTime := Some nowW,
           pending := pending st @ [AfterImmediate w]\<rparr>)"
proof -
  let ?b = "setResetTime w cand (dropHandle w st)"
  have en: "enabledOf w ?b" using assms(4) by (cases w) (simp_all add: dropHandle_def)
  have pc: "pingCount ?b = pingCount st" and pd: "pending ?b = pending st"
    by (cases w; simp add: dropHandle_def)+
  have "reconcileWindow w cand nowW authW st = stateOf (schedulePing (Some c) w nowW authW ?b)"
    using assms(1,2) en by (simp add: reconcileWindow_def strictNeq_def clear_handle)
  also have "\<dots> = (case authW of
       None \<Rightarrow> ?b
     | Some a \<Rightarrow> ?b\<lparr>pingCount := pingCount ?b + 1, lastPingTime := Some nowW,
                    pending := pending ?b @ [AfterImmediate w]\<rparr>)"
    by (simp add: schedulePing_immediate [OF assms(3) en assms(5)])
  finally show ?thesis by (simp only: pc pd)
qed

lemma reconcileWindow_unarmed:
  assumes "cand \<noteq> resetTimeOf w st" "\<not> (truthyOpt cand \<and> enabledOf w st)"
  shows "reconcileWindow w cand nowW authW st = setResetTime w cand (dropHandle w st)"
proof -
  let ?b = "setResetTime w cand (dropHandle w st)"
  have en: "enabledOf w ?b = enabledOf w st" by (cases w) (simp_all add: dropHandle_def)
  have "stateOf (schedulePing cand w nowW authW ?b) = ?b"
    using assms(2) en by (simp add: schedulePing_skip)
  then show ?thesis
    using assms(1) by (simp add: reconcileWindow_def strictNeq_def clear_handle Let_def)
qed

text \<open>The three outcomes of a changed candidate, by what they leave in the window's variables.\<close>

lemma reconcileWindow_cases:
  assumes "cand \<noteq> Some NaN"
  obtains
    (same) "cand = resetTimeOf w st" "reconcileWindow w cand nowW authW st = st"
  | (timer) c where "cand \<noteq> resetTimeOf w st" "cand = Some c" "truthy c" "enabledOf w st"
      "jgt (jsub c (Fin (of_int nowW))) (Fin 0)"
  | (immediate) c where "cand \<noteq> resetTimeOf w st" "cand = Some c" "truthy c" "enabledOf w st"
      "\<not> jgt (jsub c (Fin (of_int nowW))) (Fin 0)"
  | (unarmed) "cand \<noteq> resetTimeOf w st" "\<not> (truthyOpt cand \<and> enabledOf w st)"
proof (cases "cand = resetTimeOf w st")
  case True
  with assms same reconcileWindow_same show ?thesis by blast
next
  case neq: False
  show ?thesis
  proof (cases "truthyOpt cand \<and> enabledOf w st")
    case False
    with neq unarmed show ?thesis by blast
  next
    case True
    then obtain c where c: "cand = Some c" "truthy c"
      by (cases cand) (auto simp: truthyOpt_def)
    show ?thesis
    proof (cases "jgt (jsub c (Fin (of_int nowW))) (Fin 0)")
      case True
      with neq c \<open>truthyOpt cand \<and> enabledOf w st\<close> timer show ?thesis by blast
    next
      case False
      with neq c \<open>truthyOpt cand \<and> enabledOf w st\<close> immediate show ?thesis by blast
    qed
  qed
qed

lemma setResetTime_fields [simp]:
  "timers (setResetTime w v st) = timers st"
  "nextId (setResetTime w v st) = nextId st"
  "pending (setResetTime w v st) = pending st"
  "pingCount (setResetTime w v st) = pingCount st"
  "lastPingTime (setResetTime w v st) = lastPingTime st"
  "lastLimits (setResetTime w v st) = lastLimits st"
  "timerOf w' (setResetTime w v st) = timerOf w' st"
  "enabledOf w' (setResetTime w v st) = enabledOf w' st"
  "resetTimeOf w' (setResetTime w v st) = (if w' = w then v else resetTimeOf w' st)"
  by (cases w; cases w'; simp)+

lemma setTimer_fields [simp]:
  "timers (setTimer w v st) = timers st"
  "nextId (setTimer w v st) = nextId st"
  "pending (setTimer w v st) = pending st"
  "pingCount (setTimer w v st) = pingCount st"
  "lastPingTime (setTimer w v st) = lastPingTime st"
  "lastLimits (setTimer w v st) = lastLimits st"
  "resetTimeOf w' (setTimer w v st) = resetTimeOf w' st"
  "enabledOf w' (setTimer w v st) = enabledOf w' st"
  "timerOf w' (setTimer w v st) = (if w' = w then v else timerOf w' st)"
  by (cases w; cases w'; simp)+

lemma dropHandle_fields [simp]:
  "timers (dropHandle w st) = filter (\<lambda>t. Some (t_id t) \<noteq> timerOf w st) (timers st)"
  "nextId (dropHandle w st) = nextId st"
  "pending (dropHandle w st) = pending st"
  "pingCount (dropHandle w st) = pingCount st"
  "lastPingTime (dropHandle w st) = lastPingTime st"
  "lastLimits (dropHandle w st) = lastLimits st"
  "resetTimeOf w' (dropHandle w st) = resetTimeOf w' st"
  "enabledOf w' (dropHandle w st) = enabledOf w' st"
  "timerOf w' (dropHandle w st) = timerOf w' st"
  by (cases w'; simp add: dropHandle_def)+

lemma accessors_update [simp]:
  "resetTimeOf w (st\<lparr>timers := ts, nextId := n\<rparr>) = resetTimeOf w st"
  "enabledOf w (st\<lparr>timers := ts, nextId := n\<rparr>) = enabledOf w st"
  "timerOf w (st\<lparr>timers := ts, nextId := n\<rparr>) = timerOf w st"
  "resetTimeOf w (st\<lparr>pingCount := p, lastPingTime := l, pending := q\<rparr>) = resetTimeOf w st"
  "enabledOf w (st\<lparr>pingCount := p, lastPingTime := l, pending := q\<rparr>) = enabledOf w st"
  "timerOf w (st\<lparr>pingCount := p, lastPingTime := l, pending := q\<rparr>) = timerOf w st"
  "resetTimeOf w (st\<lparr>lastLimits := ll\<rparr>) = resetTimeOf w st"
  "enabledOf w (st\<lparr>lastLimits := ll\<rparr>) = enabledOf w st"
  "timerOf w (st\<lparr>lastLimits := ll\<rparr>) = timerOf w st"
  by (cases w; simp)+

lemma liveTimers_dropHandle_own: "liveTimers w (dropHandle w st) = cancelled w st"
  by (simp add: liveTimers_def cancelled_def conj_commute)

lemma liveTimers_dropHandle_other:
  assumes "w' \<noteq> w" "handleOk w st"
  shows "liveTimers w' (dropHandle w st) = liveTimers w' st"
proof -
  have "t_type t = w' \<Longrightarrow> t \<in> set (timers st) \<Longrightarrow> Some (t_id t) \<noteq> timerOf w st" for t
    using assms by (auto simp: handleOk_def list_all_iff split: option.splits)
  then show ?thesis
    unfolding liveTimers_def dropHandle_fields filter_filter
    by (intro filter_cong) auto
qed

lemma liveTimers_cong: "timers a = timers b \<Longrightarrow> liveTimers w a = liveTimers w b"
  by (simp add: liveTimers_def)

lemma reconcileWindow_resetTime:
  assumes "cand \<noteq> Some NaN"
  shows "resetTimeOf w (reconcileWindow w cand nowW authW st) = cand"
  using assms
proof (cases rule: reconcileWindow_cases [where w = w and st = st and nowW = nowW and authW = authW])
  case same then show ?thesis by simp
next
  case (timer c) then show ?thesis by (simp add: reconcileWindow_timer)
next
  case (immediate c) then show ?thesis
    by (simp add: reconcileWindow_immediate split: option.splits)
next
  case unarmed then show ?thesis by (simp add: reconcileWindow_unarmed)
qed

lemma reconcileWindow_armed:
  assumes "cand \<noteq> resetTimeOf w st" "cand = Some c" "truthy c" "enabledOf w st"
    "jgt (jsub c (Fin (of_int nowW))) (Fin 0)"
  shows "timerOf w (reconcileWindow w cand nowW authW st) = Some (nextId st)"
    and "liveTimers w (reconcileWindow w cand nowW authW st) = cancelled w st @
           [\<lparr>t_id = nextId st, t_type = w, t_delay = jsub c (Fin (of_int nowW)), t_set_at = nowW\<rparr>]"
  using assms
  by (simp_all add: reconcileWindow_timer liveTimers_def cancelled_def conj_commute)

lemma reconcileWindow_not_armed:
  assumes "cand \<noteq> Some NaN" "cand \<noteq> resetTimeOf w st"
    "\<not> (\<exists>c. cand = Some c \<and> truthy c \<and> enabledOf w st \<and> jgt (jsub c (Fin (of_int nowW))) (Fin 0))"
  shows "timerOf w (reconcileWindow w cand nowW authW st) = timerOf w st"
    and "liveTimers w (reconcileWindow w cand nowW authW st) = cancelled w st"
proof -
  have "timerOf w (reconcileWindow w cand nowW authW st) = timerOf w st \<and>
        liveTimers w (reconcileWindow w cand nowW authW st) = cancelled w st"
    using assms(1)
  proof (cases rule: reconcileWindow_cases [where w = w and st = st and nowW = nowW and authW = authW])
    case same with assms(2) show ?thesis by simp
  next
    case (timer c) with assms(3) show ?thesis by blast
  next
    case (immediate c) then show ?thesis
      by (simp add: reconcileWindow_immediate liveTimers_def cancelled_def conj_commute
          split: option.splits)
  next
    case unarmed then show ?thesis
      by (simp add: reconcileWindow_unarmed liveTimers_def cancelled_def conj_commute)
  qed
  then show "timerOf w (reconcileWindow w cand nowW authW st) = timerOf w st"
    and "liveTimers w (reconcileWindow w cand nowW authW st) = cancelled w st"
    by simp_all
qed

text \<open>What one window's block leaves alone.\<close>

lemma reconcileWindow_frame:
  assumes "cand \<noteq> Some NaN"
  shows "enabledOf v (reconcileWindow w cand nowW authW st) = enabledOf v st"
    and "lastLimits (reconcileWindow w cand nowW authW st) = lastLimits st"
    and "nextId st \<le> nextId (reconcileWindow w cand nowW authW st)"
    and "pingCount st \<le> pingCount (reconcileWindow w cand nowW authW st)"
    and "v \<noteq> w \<Longrightarrow> resetTimeOf v (reconcileWindow w cand nowW authW st) = resetTimeOf v st"
    and "v \<noteq> w \<Longrightarrow> timerOf v (reconcileWindow w cand nowW authW st) = timerOf v st"
    and "v \<noteq> w \<Longrightarrow> handleOk w st \<Longrightarrow>
           liveTimers v (reconcileWindow w cand nowW authW st) = liveTimers v st"
proof -
  let ?r = "reconcileWindow w cand nowW authW st"
  have "enabledOf v ?r = enabledOf v st \<and> lastLimits ?r = lastLimits st \<and>
        nextId st \<le> nextId ?r \<and> pingCount st \<le> pingCount ?r \<and>
        (v \<noteq> w \<longrightarrow> resetTimeOf v ?r = resetTimeOf v st \<and> timerOf v ?r = timerOf v st \<and>
           (handleOk w st \<longrightarrow> liveTimers v ?r = liveTimers v st))"
    using assms
proof (cases rule: reconcileWindow_cases [where w = w and st = st and nowW = nowW and authW = authW])
    case same then show ?thesis by simp
  next
    case (timer c)
    have "liveTimers v ?r = liveTimers v (dropHandle w st)" if "v \<noteq> w"
      using that timer by (simp add: reconcileWindow_timer liveTimers_def)
    with timer show ?thesis
      by (simp add: reconcileWindow_timer liveTimers_dropHandle_other)
  next
    case (immediate c)
    have "liveTimers v ?r = liveTimers v (dropHandle w st)"
      using immediate by (simp add: reconcileWindow_immediate liveTimers_def split: option.splits)
    with immediate show ?thesis
      by (simp add: reconcileWindow_immediate liveTimers_dropHandle_other split: option.splits)
  next
    case unarmed
    have "liveTimers v ?r = liveTimers v (dropHandle w st)"
      using unarmed by (simp add: reconcileWindow_unarmed liveTimers_def)
    with unarmed show ?thesis
      by (simp add: reconcileWindow_unarmed liveTimers_dropHandle_other)
  qed
  then show "enabledOf v ?r = enabledOf v st"
    and "lastLimits ?r = lastLimits st"
    and "nextId st \<le> nextId ?r"
    and "pingCount st \<le> pingCount ?r"
    and "v \<noteq> w \<Longrightarrow> resetTimeOf v ?r = resetTimeOf v st"
    and "v \<noteq> w \<Longrightarrow> timerOf v ?r = timerOf v st"
    and "v \<noteq> w \<Longrightarrow> handleOk w st \<Longrightarrow> liveTimers v ?r = liveTimers v st"
    by simp_all
qed


subsection \<open>Handles and timers stay consistent\<close>

lemma wf_iff:
  "wf st \<longleftrightarrow>
     (\<forall>t \<in> set (timers st). t_id t < nextId st) \<and>
     (\<forall>h. primaryTimer st = Some h \<longrightarrow>
        h < nextId st \<and> (\<forall>t \<in> set (timers st). t_id t = h \<longrightarrow> t_type t = Primary)) \<and>
     (\<forall>h. secondaryTimer st = Some h \<longrightarrow>
        h < nextId st \<and> (\<forall>t \<in> set (timers st). t_id t = h \<longrightarrow> t_type t = Secondary))"
  by (auto simp: wf_def handleOk_def list_all_iff split: option.splits)

lemma wf_handleOk: "wf st \<Longrightarrow> handleOk w st"
  by (cases w) (simp_all add: wf_def)

lemma wf_init: "wf init_state"
  by (simp add: wf_iff init_state_def)

lemma wf_clearTimeout: "wf st \<Longrightarrow> wf (clearTimeout h st)"
  by (auto simp: wf_iff clearTimeout_def)

lemma wf_timer_added:
  assumes "wf st"
  shows "wf (setTimer w (Some (nextId st))
      (st\<lparr>timers := timers st @ [\<lparr>t_id = nextId st, t_type = w, t_delay = d, t_set_at = n\<rparr>],
          nextId := Suc (nextId st)\<rparr>))"
proof (cases w)
  case Primary
  with assms show ?thesis by (simp add: wf_iff less_Suc_eq) (metis less_irrefl)
next
  case Secondary
  with assms show ?thesis by (simp add: wf_iff less_Suc_eq) (metis less_irrefl)
qed

lemma wf_ping_sent:
  "wf st \<Longrightarrow> wf (st\<lparr>pingCount := p, lastPingTime := l, pending := q\<rparr>)"
  by (simp add: wf_iff)

lemma wf_schedulePing: 
  assumes "wf st"
  shows "wf (stateOf (schedulePing rt w now auth st))"
proof (cases "truthyOpt rt \<and> enabledOf w st")
  case False
  then show ?thesis using assms by (simp add: schedulePing_skip)
next
  case True
  then obtain c where c: "rt = Some c" "truthy c" "enabledOf w st"
    by (cases rt) (auto simp: truthyOpt_def)
  show ?thesis
  proof (cases "jgt (jsub c (Fin (of_int now))) (Fin 0)")
    case True
    show ?thesis
      unfolding c(1) schedulePing_timer(1) [OF c(2,3) True]
      by (rule wf_timer_added [OF assms])
  next
    case False
    show ?thesis
      unfolding c(1) schedulePing_immediate [OF c(2,3) False]
      using assms by (cases auth) (simp_all add: wf_ping_sent)
  qed
qed

lemma wf_checkLimits: "wf st \<Longrightarrow> wf (checkLimits auth st)"
  by (cases auth) (simp_all add: wf_iff checkLimits_def)

lemma wf_setResetTime: "wf st \<Longrightarrow> wf (setResetTime w v st)"
  by (cases w) (simp_all add: wf_iff)

lemma wf_dropHandle: "wf st \<Longrightarrow> wf (dropHandle w st)"
  by (simp add: wf_iff dropHandle_def)

lemma wf_reconcileWindow:
  assumes "wf st"
  shows "wf (reconcileWindow w cand nowW authW st)"
proof -
  have "wf (setResetTime w cand (dropHandle w st))"
    by (intro wf_setResetTime wf_dropHandle assms)
  then show ?thesis
    using assms
    by (simp add: reconcileWindow_def clear_handle Let_def wf_schedulePing)
qed

lemma stateOf_reconcile:
  "stateOf (reconcile limits now nowP authP nowS authS st) =
     (if blockThrows Primary (newReset (primary limits) now) nowP (st\<lparr>lastLimits := Some limits\<rparr>)
      then reconcileWindow Primary (newReset (primary limits) now) nowP authP
             (st\<lparr>lastLimits := Some limits\<rparr>)
      else reconcileWindow Secondary (newReset (secondary limits) now) nowS authS
             (reconcileWindow Primary (newReset (primary limits) now) nowP authP
                (st\<lparr>lastLimits := Some limits\<rparr>)))"
  by (simp add: reconcile_eq Let_def)

lemma blockThrows_lastLimits [simp]:
  "blockThrows w cand nowW (st\<lparr>lastLimits := x\<rparr>) = blockThrows w cand nowW st"
  by (cases w; cases cand) (simp_all add: blockThrows_def armingThrows_def)

lemma threw_reconcile_primary:
  "blockThrows Primary (newReset (primary limits) now) nowP st \<Longrightarrow>
   threw (reconcile limits now nowP authP nowS authS st)"
  by (simp add: reconcile_eq Let_def)

lemma wf_reconcile:
  assumes "wf st"
  shows "wf (stateOf (reconcile limits now nowP authP nowS authS st))"
proof -
  have "wf (st\<lparr>lastLimits := Some limits\<rparr>)"
    using assms by (simp add: wf_iff)
  then show ?thesis
    unfolding stateOf_reconcile by (simp add: wf_reconcileWindow)
qed

lemma reconcile_frame:
  shows "lastLimits (stateOf (reconcile l now nowP authP nowS authS st)) = Some l"
    and "enabledOf v (stateOf (reconcile l now nowP authP nowS authS st)) = enabledOf v st"
    and "pingCount st \<le> pingCount (stateOf (reconcile l now nowP authP nowS authS st))"
    and "nextId st \<le> nextId (stateOf (reconcile l now nowP authP nowS authS st))"
proof -
  let ?s0 = "st\<lparr>lastLimits := Some l\<rparr>"
  let ?s1 = "reconcileWindow Primary (newReset (primary l) now) nowP authP ?s0"
  let ?s2 = "reconcileWindow Secondary (newReset (secondary l) now) nowS authS ?s1"
  note fr = reconcileWindow_frame [OF newReset_not_NaN]
  show "lastLimits (stateOf (reconcile l now nowP authP nowS authS st)) = Some l"
    by (simp add: stateOf_reconcile fr)
  show "enabledOf v (stateOf (reconcile l now nowP authP nowS authS st)) = enabledOf v st"
    by (simp add: stateOf_reconcile fr)
  have "pingCount ?s0 \<le> pingCount ?s1"
    by (rule fr(4))
  then have p1: "pingCount st \<le> pingCount ?s1" by simp
  also have "\<dots> \<le> pingCount ?s2"
    by (rule fr(4))
  finally have p2: "pingCount st \<le> pingCount ?s2" .
  from p1 p2 show "pingCount st \<le> pingCount (stateOf (reconcile l now nowP authP nowS authS st))"
    by (simp add: stateOf_reconcile)
  have "nextId ?s0 \<le> nextId ?s1"
    by (rule fr(3))
  then have n1: "nextId st \<le> nextId ?s1" by simp
  also have "\<dots> \<le> nextId ?s2"
    by (rule fr(3))
  finally have n2: "nextId st \<le> nextId ?s2" .
  from n1 n2 show "nextId st \<le> nextId (stateOf (reconcile l now nowP authP nowS authS st))"
    by (simp add: stateOf_reconcile)
qed

lemma resume_None:
  "resume k None now nowP authP nowS authS st =
     (case k of AfterTimer w \<Rightarrow> setTimer w None st | _ \<Rightarrow> st)"
  by (cases k; simp add: resume_def split: window.splits)

lemma resume_Some:
  "resume k (Some l) now nowP authP nowS authS st =
     (if threw (reconcile l now nowP authP nowS authS st)
      then stateOf (reconcile l now nowP authP nowS authS st)
      else (case k of
              AfterTimer w \<Rightarrow> setTimer w None (stateOf (reconcile l now nowP authP nowS authS st))
            | _ \<Rightarrow> stateOf (reconcile l now nowP authP nowS authS st)))"
  by (cases "reconcile l now nowP authP nowS authS st"; cases k)
    (simp_all add: resume_def split: window.splits)

lemma wf_setTimer_None: "wf st \<Longrightarrow> wf (setTimer w None st)"
  by (cases w) (simp_all add: wf_iff)

lemma wf_resume: "wf st \<Longrightarrow> wf (resume k limits now nowP authP nowS authS st)"
  by (cases limits; cases k)
    (simp_all add: resume_None resume_Some wf_reconcile wf_setTimer_None)

lemma wf_resolve: "wf st \<Longrightarrow> wf (resolve i resp now nowP authP nowS authS st)"
proof -
  assume "wf st"
  then have "wf (st\<lparr>pending := q\<rparr>)" for q by (simp add: wf_iff)
  then show ?thesis by (simp add: resolve_def wf_resume \<open>wf st\<close>)
qed

lemma fire_dead: "find (\<lambda>t. t_id t = h) (timers st) = None \<Longrightarrow> fire h auth now st = st"
  by (simp add: fire_def)

lemma fire_live:
  "find (\<lambda>t. t_id t = h) (timers st) = Some t \<Longrightarrow>
   fire h auth now st =
     (case auth of
        None \<Rightarrow> setTimer (t_type t) None (st\<lparr>timers := filter (\<lambda>t. t_id t \<noteq> h) (timers st)\<rparr>)
      | Some a \<Rightarrow> st\<lparr>timers := filter (\<lambda>t. t_id t \<noteq> h) (timers st),
                     pingCount := pingCount st + 1, lastPingTime := Some now,
                     pending := pending st @ [AfterTimer (t_type t)]\<rparr>)"
  by (cases "t_type t"; cases auth; simp add: fire_def)

lemma wf_fire: "wf st \<Longrightarrow> wf (fire h auth now st)"
proof (cases "find (\<lambda>t. t_id t = h) (timers st)")
  case None
  then show "wf st \<Longrightarrow> ?thesis" by (simp add: fire_dead)
next
  case (Some t)
  assume "wf st"
  then have a: "wf (st\<lparr>timers := filter (\<lambda>t. t_id t \<noteq> h) (timers st)\<rparr>)"
    by (simp add: wf_iff)
  then have "wf (st\<lparr>timers := filter (\<lambda>t. t_id t \<noteq> h) (timers st),
                     pingCount := p, lastPingTime := l, pending := q\<rparr>)" for p l q
    by (simp add: wf_iff)
  with a show ?thesis
    by (cases auth) (simp_all add: fire_live [OF Some] wf_setTimer_None)
qed

lemma toggle_off:
  "toggle w False now auth st =
     (case w of Primary \<Rightarrow> setTimer w None (dropHandle w (st\<lparr>primaryEnabled := False\<rparr>))
      | Secondary \<Rightarrow> setTimer w None (dropHandle w (st\<lparr>secondaryEnabled := False\<rparr>)))"
  by (cases w; simp add: toggle_def Let_def dropHandle_def clearTimeout_def split: option.splits)

lemma toggle_on:
  "toggle w True now auth st =
     (case w of
        Primary \<Rightarrow>
          stateOf (schedulePing (primaryResetTime st) Primary now auth (st\<lparr>primaryEnabled := True\<rparr>))
      | Secondary \<Rightarrow>
          stateOf (schedulePing (secondaryResetTime st) Secondary now auth (st\<lparr>secondaryEnabled := True\<rparr>)))"
  by (cases w; simp add: toggle_def Let_def schedulePing_skip)

lemma wf_toggle: "wf st \<Longrightarrow> wf (toggle w enabled now auth st)"
proof -
  assume "wf st"
  then have en: "wf (st\<lparr>primaryEnabled := b\<rparr>)" "wf (st\<lparr>secondaryEnabled := b\<rparr>)" for b
    by (simp_all add: wf_iff)
  show ?thesis
  proof (cases enabled)
    case True
    then show ?thesis
      by (cases w) (simp_all add: toggle_on wf_schedulePing en)
  next
    case False
    have "wf (setTimer w None (dropHandle w (st\<lparr>primaryEnabled := False\<rparr>)))"
      "wf (setTimer w None (dropHandle w (st\<lparr>secondaryEnabled := False\<rparr>)))"
      by (intro wf_setTimer_None wf_dropHandle en)+
    with False show ?thesis
      by (cases w) (simp_all only: toggle_off window.case)
  qed
qed

lemma wf_step: "wf st \<Longrightarrow> wf (step e st)"
  by (cases e) (simp_all add: wf_checkLimits wf_resolve wf_fire wf_toggle)

lemma wf_run: "wf st \<Longrightarrow> wf (run es st)"
  by (induction es arbitrary: st) (simp_all add: wf_step)

lemma wf_reachable: "wf (run es init_state)"
  by (rule wf_run [OF wf_init])

section \<open>Evaluating concrete inputs\<close>

lemmas parse_defs = parseFloat_def unsignedLiteral_def isWhite_def isDigit_def startsWith_def
  digitsVal_def digitVal_def exponentOf_def scale10_def toDouble_numeral

lemma lower_names:
  "toLowerCase ''x-codex-primary-used-percent'' = ''x-codex-primary-used-percent''"
  "toLowerCase ''x-codex-primary-reset-after-seconds'' = ''x-codex-primary-reset-after-seconds''"
  "toLowerCase ''x-codex-secondary-used-percent'' = ''x-codex-secondary-used-percent''"
  "toLowerCase ''x-codex-secondary-reset-after-seconds'' = ''x-codex-secondary-reset-after-seconds''"
  by (simp_all add: toLowerCase_def lowerChar_def)

lemmas extract_defs = extractLimits_def parseHeader_def headerValue_def orUndefined_def
  truthyOpt_def truthy_def isNaN_def lower_names pingCodex_def

lemmas sched_defs = checkLimits_def resolve_def resume_def reconcile_def newReset_def
  strictNeq_def truthy_def truthyOpt_def schedulePing_def jmax_def jsub_def toDouble_numeral setTimeout_def
  clearTimeout_def fire_def toggle_def validDate_def Let_def

lemma extract_headersBoth:
  "extractLimits headersBoth =
     Some \<lparr>primary = Some \<lparr>used_percent = Fin 10, resets_in_seconds = Some (Fin 300)\<rparr>,
           secondary = Some \<lparr>used_percent = Fin 20, resets_in_seconds = Some (Fin 600)\<rparr>\<rparr>"
  by (simp add: headersBoth_def extract_defs parse_defs)

lemma extract_headersNone: "extractLimits headersNone = None"
  by (simp add: headersNone_def extract_defs)

lemma armed_state_eq:
  "armed_state =
     \<lparr>primaryEnabled = True, secondaryEnabled = True,
      primaryResetTime = Some (Fin 300000), secondaryResetTime = Some (Fin 600000),
      primaryTimer = Some 0, secondaryTimer = Some 1,
      lastPingTime = None, pingCount = 0,
      lastLimits =
        Some \<lparr>primary = Some \<lparr>used_percent = Fin 10, resets_in_seconds = Some (Fin 300)\<rparr>,
              secondary = Some \<lparr>used_percent = Fin 20, resets_in_seconds = Some (Fin 600)\<rparr>\<rparr>,
      timers =
        [\<lparr>t_id = 0, t_type = Primary, t_delay = Fin 300000, t_set_at = 0\<rparr>,
         \<lparr>t_id = 1, t_type = Secondary, t_delay = Fin 600000, t_set_at = 0\<rparr>],
      nextId = 2, pending = []\<rparr>"
  by (simp add: armed_state_def init_state_def pingCodex_def extract_headersBoth sched_defs)

section \<open>The ping counter\<close>









section \<open>Resolutions with and without a snapshot\<close>

lemma extract_headersPrimaryOnly:
  "extractLimits headersPrimaryOnly =
     Some \<lparr>primary = Some \<lparr>used_percent = Fin 35, resets_in_seconds = Some (Fin 300)\<rparr>,
           secondary = None\<rparr>"
  by (simp add: headersPrimaryOnly_def extract_defs parse_defs)

lemma resolve_in_range:
  "i < length (pending st) \<Longrightarrow>
   resolve i resp now nowP authP nowS authS st =
     resume (pending st ! i) (pingCodex resp) now nowP authP nowS authS
       (st\<lparr>pending := take i (pending st) @ drop (Suc i) (pending st)\<rparr>)"
  by (simp add: resolve_def)

lemma resume_lastLimits:
  "lastLimits (resume k (Some l) now nowP authP nowS authS st) = Some l"
  by (cases k) (simp_all add: resume_Some reconcile_frame)

text \<open>
  C10. A request that resolves with a snapshot \<open>S\<close> leaves \<^verbatim>\<open>lastLimits = S\<close>: the assignment
  comes first, the blocks of the two windows run on the state that already holds \<open>S\<close> and
  never write \<^verbatim>\<open>lastLimits\<close>, whether they return or throw. So a window missing from \<open>S\<close>
  is missing afterwards, whatever the previous snapshot held.
\<close>

theorem snapshot_replaces_lastLimits:
  assumes "i < length (pending st)" and "pingCodex resp = Some S"
  shows "lastLimits (resolve i resp now nowP authP nowS authS st) = Some S \<and>
    reconcile S now nowP authP nowS authS st =
      (let s0 = st\<lparr>lastLimits := Some S\<rparr>;
           candP = newReset (primary S) now;
           candS = newReset (secondary S) now;
           s1 = reconcileWindow Primary candP nowP authP s0
       in if blockThrows Primary candP nowP s0 then Thrown s1
          else
            let s2 = reconcileWindow Secondary candS nowS authS s1
            in if blockThrows Secondary candS nowS s1 then Thrown s2 else Returned s2) \<and>
    (\<forall>w l. lastLimits (resolve i resp now nowP authP nowS authS st) = Some l \<longrightarrow>
       windowInfo w l = windowInfo w S)"
proof -
  have "lastLimits (resolve i resp now nowP authP nowS authS st) = Some S"
    using assms by (simp add: resolve_in_range resume_lastLimits)
  moreover note reconcile_eq [of S now nowP authP nowS authS st]
  ultimately show ?thesis
    by simp
qed

theorem snapshot_replaces_lastLimits_witness:
  "0 < length (pending (checkLimits (Some auth0) armed_state)) \<and>
   pingCodex (Some headersPrimaryOnly) =
     Some \<lparr>primary = Some \<lparr>used_percent = Fin 35, resets_in_seconds = Some (Fin 300)\<rparr>,
           secondary = None\<rparr> \<and>
   (\<exists>info. map_option secondary (lastLimits armed_state) = Some (Some info)) \<and>
   map_option secondary
     (lastLimits (resolve 0 (Some headersPrimaryOnly) 60000 60000 (Some auth0) 60000 (Some auth0)
        (checkLimits (Some auth0) armed_state))) = Some None"
proof -
  have h1: "0 < length (pending (checkLimits (Some auth0) armed_state))"
    by (simp add: checkLimits_def)
  have h2: "pingCodex (Some headersPrimaryOnly) =
     Some \<lparr>primary = Some \<lparr>used_percent = Fin 35, resets_in_seconds = Some (Fin 300)\<rparr>,
           secondary = None\<rparr>"
    by (simp add: pingCodex_def extract_headersPrimaryOnly)
  have h3: "\<exists>info. map_option secondary (lastLimits armed_state) = Some (Some info)"
    by (simp add: armed_state_eq)
  show ?thesis
    using h1 h2 h3
      snapshot_replaces_lastLimits [OF h1 h2, of 60000 60000 "Some auth0" 60000 "Some auth0"]
    by simp
qed

text \<open>
  C5. A cycle that obtains no snapshot, because no response came or because the response
  carries no readable used-percent header, keeps the schedule: a poll leaves the whole
  state as it was; the resolution of any request leaves both reset times, the live
  timers, \<^verbatim>\<open>lastLimits\<close>, the switches and the counters as they were, and a handle
  variable is either left alone or, at the end of a timer callback, set to null; and a
  timer firing followed by such a resolution differs in the live timers only by the timer
  that fired.
\<close>

theorem no_snapshot_no_change:
  assumes "pingCodex resp = None"
  shows
    "resolve (length (pending st)) resp now nowP authP nowS authS (checkLimits auth st) = st \<and>
     (let st' = resolve i resp now nowP authP nowS authS st in
        primaryResetTime st' = primaryResetTime st \<and>
        secondaryResetTime st' = secondaryResetTime st \<and>
        lastLimits st' = lastLimits st \<and> timers st' = timers st \<and>
        primaryEnabled st' = primaryEnabled st \<and> secondaryEnabled st' = secondaryEnabled st \<and>
        pingCount st' = pingCount st \<and> lastPingTime st' = lastPingTime st \<and>
        (primaryTimer st' = primaryTimer st \<or> primaryTimer st' = None) \<and>
        (secondaryTimer st' = secondaryTimer st \<or> secondaryTimer st' = None)) \<and>
     (let st' = resolve (length (pending st)) resp now nowP authP nowS authS (fire h auth nowF st) in
        primaryResetTime st' = primaryResetTime st \<and>
        secondaryResetTime st' = secondaryResetTime st \<and>
        lastLimits st' = lastLimits st \<and>
        timers st' = filter (\<lambda>t. t_id t \<noteq> h) (timers st))"
proof -
  have poll: "resolve (length (pending st)) resp now nowP authP nowS authS (checkLimits auth st) = st"
    using assms by (cases auth) (simp_all add: checkLimits_def resolve_def resume_None)
  have any: "primaryResetTime s' = primaryResetTime s \<and>
        secondaryResetTime s' = secondaryResetTime s \<and>
        lastLimits s' = lastLimits s \<and> timers s' = timers s \<and>
        primaryEnabled s' = primaryEnabled s \<and> secondaryEnabled s' = secondaryEnabled s \<and>
        pingCount s' = pingCount s \<and> lastPingTime s' = lastPingTime s \<and>
        (primaryTimer s' = primaryTimer s \<or> primaryTimer s' = None) \<and>
        (secondaryTimer s' = secondaryTimer s \<or> secondaryTimer s' = None)"
    if "s' = resolve j resp now nowP authP nowS authS s" for s s' j
  proof (cases "j < length (pending s)")
    case False
    with that show ?thesis by (simp add: resolve_def)
  next
    case True
    show ?thesis
    proof (cases "pending s ! j")
      case AfterCheck
      with True that assms show ?thesis by (simp add: resolve_def resume_None)
    next
      case (AfterTimer w)
      with True that assms show ?thesis by (cases w) (simp_all add: resolve_def resume_None)
    next
      case (AfterImmediate w)
      with True that assms show ?thesis by (simp add: resolve_def resume_None)
    qed
  qed
  have fired: "primaryResetTime (fire h auth nowF st) = primaryResetTime st \<and>
      secondaryResetTime (fire h auth nowF st) = secondaryResetTime st \<and>
      lastLimits (fire h auth nowF st) = lastLimits st \<and>
      timers (fire h auth nowF st) = filter (\<lambda>t. t_id t \<noteq> h) (timers st)"
  proof (cases "find (\<lambda>t. t_id t = h) (timers st)")
    case None
    then have "filter (\<lambda>t. t_id t \<noteq> h) (timers st) = timers st"
      by (simp add: find_None_iff)
    with None show ?thesis by (simp add: fire_dead)
  next
    case (Some t)
    then show ?thesis
      by (cases auth; cases "t_type t") (simp_all add: fire_live)
  qed
  show ?thesis
    using poll any [OF refl, of i st] any [OF refl, of "length (pending st)" "fire h auth nowF st"]
      fired
    by (simp add: Let_def)
qed

theorem no_snapshot_no_change_witness:
  "pingCodex None = None \<and> pingCodex (Some headersNone) = None \<and>
   resolve 0 None 60000 60000 (Some auth0) 60000 (Some auth0)
     (checkLimits (Some auth0) armed_state) = armed_state \<and>
   timers (resolve 0 (Some headersNone) 300000 300000 (Some auth0) 300000 (Some auth0)
     (fire 0 (Some auth0) 300000 armed_state)) =
     [\<lparr>t_id = 1, t_type = Secondary, t_delay = Fin 600000, t_set_at = 0\<rparr>] \<and>
   primaryResetTime (resolve 0 (Some headersNone) 300000 300000 (Some auth0) 300000 (Some auth0)
     (fire 0 (Some auth0) 300000 armed_state)) = Some (Fin 300000)"
proof -
  have h1: "pingCodex None = None" by (simp add: pingCodex_def)
  have h2: "pingCodex (Some headersNone) = None"
    by (simp add: pingCodex_def extract_headersNone)
  have p: "length (pending armed_state) = 0" by (simp add: armed_state_eq)
  show ?thesis
    using h1 h2
      no_snapshot_no_change [OF h1, where st = armed_state and now = 60000 and nowP = 60000
        and authP = "Some auth0" and nowS = 60000 and authS = "Some auth0" and auth = "Some auth0"
        and i = 0 and h = 0 and nowF = 0]
      no_snapshot_no_change [OF h2, where st = armed_state and now = 300000 and nowP = 300000
        and authP = "Some auth0" and nowS = 300000 and authS = "Some auth0" and auth = "Some auth0"
        and i = 0 and h = 0 and nowF = 300000]
    by (simp add: p Let_def armed_state_eq)
qed

section \<open>What the headers give\<close>

lemma parseHeader_Some_iff:
  "parseHeader hs name = Some n \<longleftrightarrow>
     (\<exists>v. headerValue hs name = Some v \<and> v \<noteq> [] \<and> parseFloat v = n \<and> n \<noteq> NaN)"
  by (auto simp: parseHeader_def isNaN_def Let_def split: option.splits)

lemma orUndefined_eq:
  "orUndefined v = (case v of None \<Rightarrow> None | Some r \<Rightarrow> if r = NaN \<or> r = Fin 0 then None else Some r)"
  by (auto simp: orUndefined_def truthyOpt_def truthy_def split: option.splits)

lemma parseHeader_not_NaN: "parseHeader hs name \<noteq> Some NaN"
  by (simp add: parseHeader_Some_iff)

lemma windowOf_extractLimits:
  "windowOf w (extractLimits hs) =
     (case parseHeader hs (usedHeader w) of
        None \<Rightarrow> None
      | Some p \<Rightarrow>
          Some \<lparr>used_percent = p,
                resets_in_seconds =
                  (case parseHeader hs (resetHeader w) of
                     None \<Rightarrow> None
                   | Some r \<Rightarrow> if r = Fin 0 then None else Some r)\<rparr>)"
proof -
  have "orUndefined (parseHeader hs n) =
      (case parseHeader hs n of None \<Rightarrow> None | Some r \<Rightarrow> if r = Fin 0 then None else Some r)" for n
    using parseHeader_not_NaN [of hs n]
    by (auto simp: orUndefined_eq split: option.splits)
  then show ?thesis
    by (cases w) (auto simp: windowOf_def extractLimits_def Let_def split: option.splits)
qed

lemma extractLimits_None_iff:
  "extractLimits hs = None \<longleftrightarrow>
     parseHeader hs (usedHeader Primary) = None \<and> parseHeader hs (usedHeader Secondary) = None"
  by (auto simp: extractLimits_def Let_def split: option.splits)

text \<open>
  C4, as the code has it. A header is read when it is present, not empty and
  \<^verbatim>\<open>parseFloat\<close> returns something other than NaN, \<^verbatim>\<open>Infinity\<close> included. A window is built
  exactly when its used-percent header is read; its \<^verbatim>\<open>resets_in_seconds\<close> is present
  exactly when the reset-after header is read as a number other than 0; and the result is
  null exactly when neither used-percent header is read.
\<close>

theorem extractLimits_windows:
  "(parseHeader hs name = Some n \<longleftrightarrow>
      (\<exists>v. headerValue hs name = Some v \<and> v \<noteq> [] \<and> parseFloat v = n \<and> n \<noteq> NaN)) \<and>
   windowOf w (extractLimits hs) =
     (case parseHeader hs (usedHeader w) of
        None \<Rightarrow> None
      | Some p \<Rightarrow>
          Some \<lparr>used_percent = p,
                resets_in_seconds =
                  (case parseHeader hs (resetHeader w) of
                     None \<Rightarrow> None
                   | Some r \<Rightarrow> if r = Fin 0 then None else Some r)\<rparr>) \<and>
   (extractLimits hs = None \<longleftrightarrow>
      parseHeader hs (usedHeader Primary) = None \<and> parseHeader hs (usedHeader Secondary) = None)"
  using parseHeader_Some_iff windowOf_extractLimits extractLimits_None_iff by blast

theorem extractLimits_windows_witness:
  "windowOf Primary (extractLimits headersBoth) =
     Some \<lparr>used_percent = Fin 10, resets_in_seconds = Some (Fin 300)\<rparr> \<and>
   parseHeader headersBoth (usedHeader Primary) = Some (Fin 10) \<and>
   parseHeader headersBoth (resetHeader Primary) = Some (Fin 300)"
  using extractLimits_windows [of headersBoth "usedHeader Primary" "Fin 10" Primary]
  by (simp add: headersBoth_def parseHeader_def headerValue_def isNaN_def parse_defs)

text \<open>
  C4 as stated fails: the reset-after header \<^verbatim>\<open>0\<close> parses as the finite number 0, and the
  window has no \<^verbatim>\<open>resets_in_seconds\<close>.
\<close>

theorem zero_reset_dropped:
  "headerValue headersZeroReset (resetHeader Primary) = Some ''0'' \<and>
   parseFloat ''0'' = Fin 0 \<and>
   windowOf Primary (extractLimits headersZeroReset) =
     Some \<lparr>used_percent = Fin 100, resets_in_seconds = None\<rparr>"
  by (simp add: headersZeroReset_def windowOf_def extract_defs parse_defs)

text \<open>
  C9, as the code has it: the used-percent of a window is what \<^verbatim>\<open>parseFloat\<close> reads from
  the header, never NaN; no range is imposed on it.
\<close>

theorem used_percent_parsed:
  assumes "windowOf w (extractLimits hs) = Some info"
  shows "used_percent info \<noteq> NaN \<and>
    (\<exists>v. headerValue hs (usedHeader w) = Some v \<and> v \<noteq> [] \<and> used_percent info = parseFloat v)"
proof -
  from assms obtain p where p: "parseHeader hs (usedHeader w) = Some p" "used_percent info = p"
    by (auto simp: windowOf_extractLimits split: option.splits)
  then show ?thesis
    by (auto simp: parseHeader_Some_iff)
qed

theorem used_percent_parsed_witness:
  "windowOf Primary (extractLimits headersBoth) =
     Some \<lparr>used_percent = Fin 10, resets_in_seconds = Some (Fin 300)\<rparr> \<and>
   (\<exists>v. headerValue headersBoth (usedHeader Primary) = Some v \<and> v \<noteq> [] \<and> Fin 10 = parseFloat v)"
proof -
  have h: "windowOf Primary (extractLimits headersBoth) =
     Some \<lparr>used_percent = Fin 10, resets_in_seconds = Some (Fin 300)\<rparr>"
    by (simp add: windowOf_def extract_headersBoth)
  show ?thesis
    using h used_percent_parsed [OF h] by simp
qed

text \<open>C9 as stated fails: \<^verbatim>\<open>150\<close> and \<^verbatim>\<open>-3\<close> are stored as they are read.\<close>

theorem used_percent_out_of_range:
  "map_option used_percent (windowOf Primary (extractLimits headersOver)) = Some (Fin 150) \<and>
   jgt (Fin 150) (Fin 100) \<and>
   map_option used_percent (windowOf Secondary (extractLimits headersOver)) = Some (Fin (- 3)) \<and>
   jgt (Fin 0) (Fin (- 3))"
  by (simp add: headersOver_def windowOf_def extract_defs parse_defs)

section \<open>One window under reconcile\<close>

lemma reconcileWindow_pending:
  assumes "cand \<noteq> Some NaN"
  shows "set (pending st) \<subseteq> set (pending (reconcileWindow w cand nowW authW st))"
    and "lastPingTime (reconcileWindow w cand nowW authW st) = lastPingTime st \<or>
         lastPingTime (reconcileWindow w cand nowW authW st) = Some nowW"
proof -
  let ?r = "reconcileWindow w cand nowW authW st"
  have "set (pending st) \<subseteq> set (pending ?r) \<and>
        (lastPingTime ?r = lastPingTime st \<or> lastPingTime ?r = Some nowW)"
    using assms
  proof (cases rule: reconcileWindow_cases [where w = w and st = st and nowW = nowW and authW = authW])
    case same then show ?thesis by simp
  next
    case (timer c) then show ?thesis by (simp add: reconcileWindow_timer)
  next
    case (immediate c) then show ?thesis
      by (cases authW) (auto simp: reconcileWindow_immediate)
  next
    case unarmed then show ?thesis by (simp add: reconcileWindow_unarmed)
  qed
  then show "set (pending st) \<subseteq> set (pending ?r)"
    and "lastPingTime ?r = lastPingTime st \<or> lastPingTime ?r = Some nowW"
    by simp_all
qed

text \<open>The immediate pings that the block of a window puts in flight are its own.\<close>

lemma immediates_fields [simp]:
  "immediates v (setResetTime w x st) = immediates v st"
  "immediates v (setTimer w y st) = immediates v st"
  "immediates v (dropHandle w st) = immediates v st"
  "immediates v (st\<lparr>timers := ts, nextId := n\<rparr>) = immediates v st"
  "immediates v (st\<lparr>lastLimits := ll\<rparr>) = immediates v st"
  by (simp_all add: immediates_def)

lemma reconcileWindow_immediates:
  assumes "cand \<noteq> Some NaN"
  shows "v \<noteq> w \<Longrightarrow> immediates v (reconcileWindow w cand nowW authW st) = immediates v st"
    and "cand = resetTimeOf w st \<Longrightarrow>
           immediates w (reconcileWindow w cand nowW authW st) = immediates w st"
    and "cand \<noteq> resetTimeOf w st \<Longrightarrow> cand = Some c \<Longrightarrow> truthy c \<Longrightarrow> enabledOf w st \<Longrightarrow>
         \<not> jgt (jsub c (Fin (of_int nowW))) (Fin 0) \<Longrightarrow>
           immediates w (reconcileWindow w cand nowW authW st) =
             immediates w st + (if authW = None then 0 else 1)"
    and "\<not> (\<exists>c. cand = Some c \<and> truthy c \<and> enabledOf w st \<and>
              \<not> jgt (jsub c (Fin (of_int nowW))) (Fin 0)) \<Longrightarrow>
           immediates w (reconcileWindow w cand nowW authW st) = immediates w st"
proof -
  let ?r = "reconcileWindow w cand nowW authW st"
  have "(v \<noteq> w \<longrightarrow> immediates v ?r = immediates v st) \<and>
        (cand = resetTimeOf w st \<longrightarrow> immediates w ?r = immediates w st) \<and>
        (cand \<noteq> resetTimeOf w st \<and> cand = Some c \<and> truthy c \<and> enabledOf w st \<and>
         \<not> jgt (jsub c (Fin (of_int nowW))) (Fin 0) \<longrightarrow>
           immediates w ?r = immediates w st + (if authW = None then 0 else 1)) \<and>
        (\<not> (\<exists>c. cand = Some c \<and> truthy c \<and> enabledOf w st \<and>
              \<not> jgt (jsub c (Fin (of_int nowW))) (Fin 0)) \<longrightarrow>
           immediates w ?r = immediates w st)"
    using assms
  proof (cases rule: reconcileWindow_cases [where w = w and st = st and nowW = nowW and authW = authW])
    case same then show ?thesis by simp
  next
    case (timer c') then show ?thesis by (auto simp: reconcileWindow_timer)
  next
    case (immediate c') then show ?thesis
      by (cases authW) (auto simp: reconcileWindow_immediate immediates_def)
  next
    case unarmed then show ?thesis
      by (auto simp: reconcileWindow_unarmed truthyOpt_def)
  qed
  then show "v \<noteq> w \<Longrightarrow> immediates v ?r = immediates v st"
    and "cand = resetTimeOf w st \<Longrightarrow> immediates w ?r = immediates w st"
    and "cand \<noteq> resetTimeOf w st \<Longrightarrow> cand = Some c \<Longrightarrow> truthy c \<Longrightarrow> enabledOf w st \<Longrightarrow>
         \<not> jgt (jsub c (Fin (of_int nowW))) (Fin 0) \<Longrightarrow>
           immediates w ?r = immediates w st + (if authW = None then 0 else 1)"
    and "\<not> (\<exists>c. cand = Some c \<and> truthy c \<and> enabledOf w st \<and>
              \<not> jgt (jsub c (Fin (of_int nowW))) (Fin 0)) \<Longrightarrow>
           immediates w ?r = immediates w st"
    by blast+
qed

lemma cancelled_cong:
  "liveTimers w a = liveTimers w b \<Longrightarrow> timerOf w a = timerOf w b \<Longrightarrow> cancelled w a = cancelled w b"
  by (simp add: cancelled_def)

text \<open>
  Seen from a window whose block is reached, \<open>reconcile\<close> is that block run on a state
  that agrees with the initial one on the window's variables, timers and pings.
\<close>

lemma reconcile_view:
  assumes "wf st" and "blockReached w l now nowP st"
  obtains s where
    "resetTimeOf w s = resetTimeOf w st" "timerOf w s = timerOf w st"
    "enabledOf w s = enabledOf w st" "liveTimers w s = liveTimers w st"
    "immediates w s = immediates w st"
    "nextId st \<le> nextId s" "pingCount st \<le> pingCount s"
    "resetTimeOf w (stateOf (reconcile l now nowP authP nowS authS st)) =
       resetTimeOf w (reconcileWindow w (newReset (windowInfo w l) now) (pick w nowP nowS) (pick w authP authS) s)"
    "timerOf w (stateOf (reconcile l now nowP authP nowS authS st)) =
       timerOf w (reconcileWindow w (newReset (windowInfo w l) now) (pick w nowP nowS) (pick w authP authS) s)"
    "liveTimers w (stateOf (reconcile l now nowP authP nowS authS st)) =
       liveTimers w (reconcileWindow w (newReset (windowInfo w l) now) (pick w nowP nowS) (pick w authP authS) s)"
    "immediates w (stateOf (reconcile l now nowP authP nowS authS st)) =
       immediates w (reconcileWindow w (newReset (windowInfo w l) now) (pick w nowP nowS) (pick w authP authS) s)"
    "pingCount (reconcileWindow w (newReset (windowInfo w l) now) (pick w nowP nowS) (pick w authP authS) s)
       \<le> pingCount (stateOf (reconcile l now nowP authP nowS authS st))"
    "set (pending (reconcileWindow w (newReset (windowInfo w l) now) (pick w nowP nowS) (pick w authP authS) s))
       \<subseteq> set (pending (stateOf (reconcile l now nowP authP nowS authS st)))"
    "lastPingTime (stateOf (reconcile l now nowP authP nowS authS st)) =
       lastPingTime (reconcileWindow w (newReset (windowInfo w l) now) (pick w nowP nowS) (pick w authP authS) s)
     \<or> lastPingTime (stateOf (reconcile l now nowP authP nowS authS st)) = Some nowS"
proof (cases w)
  case Primary
  let ?s0 = "st\<lparr>lastLimits := Some l\<rparr>"
  let ?s1 = "reconcileWindow Primary (newReset (primary l) now) nowP authP ?s0"
  let ?s2 = "reconcileWindow Secondary (newReset (secondary l) now) nowS authS ?s1"
  let ?r = "stateOf (reconcile l now nowP authP nowS authS st)"
  note fr = reconcileWindow_frame [OF newReset_not_NaN]
  note pd = reconcileWindow_pending [OF newReset_not_NaN]
  note im = reconcileWindow_immediates(1) [OF newReset_not_NaN]
  note fo = fr(5,6) [where v = Primary and w = Secondary, simplified]
  have "wf ?s0" using assms(1) by (simp add: wf_iff)
  then have "wf ?s1" by (rule wf_reconcileWindow)
  then have ok: "handleOk Secondary ?s1" by (rule wf_handleOk)
  have r: "?r = ?s1 \<or> ?r = ?s2" by (simp add: stateOf_reconcile)
  have a: "resetTimeOf Primary ?s2 = resetTimeOf Primary ?s1"
    "timerOf Primary ?s2 = timerOf Primary ?s1"
    "liveTimers Primary ?s2 = liveTimers Primary ?s1"
    "immediates Primary ?s2 = immediates Primary ?s1"
    "pingCount ?s1 \<le> pingCount ?s2"
    "set (pending ?s1) \<subseteq> set (pending ?s2)"
    "lastPingTime ?s2 = lastPingTime ?s1 \<or> lastPingTime ?s2 = Some nowS"
    using ok by (simp_all add: fr fo im pd)
  show ?thesis
  proof (rule that [of ?s0])
    show "liveTimers w ?s0 = liveTimers w st" by (simp add: liveTimers_def)
    show "resetTimeOf w ?r =
       resetTimeOf w (reconcileWindow w (newReset (windowInfo w l) now) (pick w nowP nowS) (pick w authP authS) ?s0)"
      using r a(1) unfolding Primary windowInfo.simps pick.simps by metis
    show "timerOf w ?r =
       timerOf w (reconcileWindow w (newReset (windowInfo w l) now) (pick w nowP nowS) (pick w authP authS) ?s0)"
      using r a(2) unfolding Primary windowInfo.simps pick.simps by metis
    show "liveTimers w ?r =
       liveTimers w (reconcileWindow w (newReset (windowInfo w l) now) (pick w nowP nowS) (pick w authP authS) ?s0)"
      using r a(3) unfolding Primary windowInfo.simps pick.simps by metis
    show "immediates w ?r =
       immediates w (reconcileWindow w (newReset (windowInfo w l) now) (pick w nowP nowS) (pick w authP authS) ?s0)"
      using r a(4) unfolding Primary windowInfo.simps pick.simps by metis
    show "pingCount (reconcileWindow w (newReset (windowInfo w l) now) (pick w nowP nowS) (pick w authP authS) ?s0)
       \<le> pingCount ?r"
      using r a(5) unfolding Primary windowInfo.simps pick.simps by auto
    show "set (pending (reconcileWindow w (newReset (windowInfo w l) now) (pick w nowP nowS) (pick w authP authS) ?s0))
       \<subseteq> set (pending ?r)"
      using r a(6) unfolding Primary windowInfo.simps pick.simps by auto
    show "lastPingTime ?r =
       lastPingTime (reconcileWindow w (newReset (windowInfo w l) now) (pick w nowP nowS) (pick w authP authS) ?s0)
     \<or> lastPingTime ?r = Some nowS"
      using r a(7) unfolding Primary windowInfo.simps pick.simps by auto
  qed simp_all
next
  case Secondary
  let ?s0 = "st\<lparr>lastLimits := Some l\<rparr>"
  let ?s1 = "reconcileWindow Primary (newReset (primary l) now) nowP authP ?s0"
  let ?s2 = "reconcileWindow Secondary (newReset (secondary l) now) nowS authS ?s1"
  let ?r = "stateOf (reconcile l now nowP authP nowS authS st)"
  note fr = reconcileWindow_frame [OF newReset_not_NaN]
  note fo = fr(1,5,6) [where v = Secondary and w = Primary, simplified]
  note im = reconcileWindow_immediates(1) [OF newReset_not_NaN]
  have "wf ?s0" using assms(1) by (simp add: wf_iff)
  then have ok: "handleOk Primary ?s0" by (rule wf_handleOk)
  have n: "nextId ?s0 \<le> nextId ?s1" and p: "pingCount ?s0 \<le> pingCount ?s1"
    by (rule fr)+
  have "\<not> blockThrows Primary (newReset (primary l) now) nowP st"
    using assms(2) by (simp add: blockReached_def Secondary)
  then have r: "?r = ?s2" by (simp add: stateOf_reconcile)
  show ?thesis
  proof (rule that [of ?s1])
    have "liveTimers Secondary ?s1 = liveTimers Secondary ?s0"
      using ok by (simp add: fr)
    then show "liveTimers w ?s1 = liveTimers w st"
      by (simp add: Secondary liveTimers_def)
    have "immediates Secondary ?s1 = immediates Secondary ?s0"
      by (simp add: im)
    then show "immediates w ?s1 = immediates w st"
      by (simp add: Secondary)
    show "nextId st \<le> nextId ?s1" using n by simp
    show "pingCount st \<le> pingCount ?s1" using p by simp
  qed (simp_all add: Secondary r fr fo)
qed

lemma extract_headersNoPrimaryReset:
  "extractLimits headersNoPrimaryReset =
     Some \<lparr>primary = Some \<lparr>used_percent = Fin 12, resets_in_seconds = None\<rparr>,
           secondary = Some \<lparr>used_percent = Fin 20, resets_in_seconds = Some (Fin 540)\<rparr>\<rparr>"
  by (simp add: headersNoPrimaryReset_def extract_defs parse_defs)

lemma reconcile_window_effect:
  assumes "wf st" and "blockReached w l now nowP st"
  shows "let cand = newReset (windowInfo w l) now;
             nowW = pick w nowP nowS;
             authW = pick w authP authS;
             st' = stateOf (reconcile l now nowP authP nowS authS st)
         in resetTimeOf w st' = cand \<and>
            (cand = resetTimeOf w st \<longrightarrow>
               timerOf w st' = timerOf w st \<and> liveTimers w st' = liveTimers w st \<and>
               immediates w st' = immediates w st) \<and>
            (cand \<noteq> resetTimeOf w st \<longrightarrow>
               (case cand of
                  None \<Rightarrow>
                    timerOf w st' = timerOf w st \<and> liveTimers w st' = cancelled w st \<and>
                    immediates w st' = immediates w st
                | Some c \<Rightarrow>
                    if truthy c \<and> enabledOf w st then
                      if jgt (jsub c (Fin (of_int nowW))) (Fin 0) then
                        (\<exists>h\<ge>nextId st. timerOf w st' = Some h \<and>
                           liveTimers w st' = cancelled w st @
                             [\<lparr>t_id = h, t_type = w, t_delay = jsub c (Fin (of_int nowW)),
                               t_set_at = nowW\<rparr>]) \<and>
                        immediates w st' = immediates w st
                      else
                        timerOf w st' = timerOf w st \<and> liveTimers w st' = cancelled w st \<and>
                        immediates w st' = immediates w st + (if authW = None then 0 else 1)
                    else
                      timerOf w st' = timerOf w st \<and> liveTimers w st' = cancelled w st \<and>
                      immediates w st' = immediates w st))"
proof -
  define cand where "cand = newReset (windowInfo w l) now"
  define nowW where "nowW = pick w nowP nowS"
  define authW where "authW = pick w authP authS"
  define st' where "st' = stateOf (reconcile l now nowP authP nowS authS st)"
  have nn: "cand \<noteq> Some NaN" by (simp add: cand_def newReset_not_NaN)
  from reconcile_view [OF assms, where nowS = nowS and authP = authP and authS = authS]
  obtain s where s: "resetTimeOf w s = resetTimeOf w st" "timerOf w s = timerOf w st"
    "enabledOf w s = enabledOf w st" "liveTimers w s = liveTimers w st" "nextId st \<le> nextId s"
    "immediates w s = immediates w st"
    and r: "resetTimeOf w st' = resetTimeOf w (reconcileWindow w cand nowW authW s)"
      "timerOf w st' = timerOf w (reconcileWindow w cand nowW authW s)"
      "liveTimers w st' = liveTimers w (reconcileWindow w cand nowW authW s)"
      "immediates w st' = immediates w (reconcileWindow w cand nowW authW s)"
    unfolding cand_def nowW_def authW_def st'_def by blast
  note im = reconcileWindow_immediates [OF nn, where w = w and st = s and nowW = nowW and authW = authW]
  have cc: "cancelled w s = cancelled w st"
    by (rule cancelled_cong [OF s(4) s(2)])
  have 1: "resetTimeOf w st' = cand"
    by (simp add: r reconcileWindow_resetTime [OF nn])
  have 2: "timerOf w st' = timerOf w st \<and> liveTimers w st' = liveTimers w st \<and>
           immediates w st' = immediates w st"
    if "cand = resetTimeOf w st"
    using that nn s by (simp add: r reconcileWindow_same)
  have 3: "timerOf w st' = timerOf w st \<and> liveTimers w st' = cancelled w st"
    if "cand \<noteq> resetTimeOf w st"
      "\<not> (\<exists>c. cand = Some c \<and> truthy c \<and> enabledOf w st \<and> jgt (jsub c (Fin (of_int nowW))) (Fin 0))"
    using reconcileWindow_not_armed [OF nn, of w s nowW authW] that s
    by (simp add: r cc)
  have 4: "(\<exists>h\<ge>nextId st. timerOf w st' = Some h \<and>
             liveTimers w st' = cancelled w st @
               [\<lparr>t_id = h, t_type = w, t_delay = jsub c (Fin (of_int nowW)), t_set_at = nowW\<rparr>]) \<and>
           immediates w st' = immediates w st"
    if "cand \<noteq> resetTimeOf w st" "cand = Some c" "truthy c" "enabledOf w st"
      "jgt (jsub c (Fin (of_int nowW))) (Fin 0)" for c
  proof -
    have "\<not> (\<exists>c. cand = Some c \<and> truthy c \<and> enabledOf w s \<and>
              \<not> jgt (jsub c (Fin (of_int nowW))) (Fin 0))"
      using that by auto
    then have "immediates w st' = immediates w st"
      using im(4) by (simp add: r s)
    then show ?thesis
      using reconcileWindow_armed [of cand w s c nowW authW] that s
      by (simp add: r cc)
  qed
  have 5: "immediates w st' = immediates w st + (if authW = None then 0 else 1)"
    if "cand \<noteq> resetTimeOf w st" "cand = Some c" "truthy c" "enabledOf w st"
      "\<not> jgt (jsub c (Fin (of_int nowW))) (Fin 0)" for c
    using im(3) [of c] that s by (simp add: r)
  have 6: "immediates w st' = immediates w st"
    if "\<not> (\<exists>c. cand = Some c \<and> truthy c \<and> enabledOf w st)"
  proof -
    have "\<not> (\<exists>c. cand = Some c \<and> truthy c \<and> enabledOf w s \<and>
              \<not> jgt (jsub c (Fin (of_int nowW))) (Fin 0))"
      using that s by auto
    then show ?thesis using im(4) by (simp add: r s)
  qed
  have "resetTimeOf w st' = cand \<and>
            (cand = resetTimeOf w st \<longrightarrow>
               timerOf w st' = timerOf w st \<and> liveTimers w st' = liveTimers w st \<and>
               immediates w st' = immediates w st) \<and>
            (cand \<noteq> resetTimeOf w st \<longrightarrow>
               (case cand of
                  None \<Rightarrow>
                    timerOf w st' = timerOf w st \<and> liveTimers w st' = cancelled w st \<and>
                    immediates w st' = immediates w st
                | Some c \<Rightarrow>
                    if truthy c \<and> enabledOf w st then
                      if jgt (jsub c (Fin (of_int nowW))) (Fin 0) then
                        (\<exists>h\<ge>nextId st. timerOf w st' = Some h \<and>
                           liveTimers w st' = cancelled w st @
                             [\<lparr>t_id = h, t_type = w, t_delay = jsub c (Fin (of_int nowW)),
                               t_set_at = nowW\<rparr>]) \<and>
                        immediates w st' = immediates w st
                      else
                        timerOf w st' = timerOf w st \<and> liveTimers w st' = cancelled w st \<and>
                        immediates w st' = immediates w st + (if authW = None then 0 else 1)
                    else
                      timerOf w st' = timerOf w st \<and> liveTimers w st' = cancelled w st \<and>
                      immediates w st' = immediates w st))"
  proof (cases cand)
    case None
    with 1 2 3 6 show ?thesis by simp
  next
    case (Some c)
    show ?thesis
    proof (cases "truthy c \<and> enabledOf w st")
      case False
      with Some 1 2 3 6 show ?thesis by auto
    next
      case te: True
      show ?thesis
      proof (cases "jgt (jsub c (Fin (of_int nowW))) (Fin 0)")
        case True
        with Some te 1 2 4 [of c] show ?thesis by auto
      next
        case False
        with Some te 1 2 3 5 [of c] show ?thesis by auto
      qed
    qed
  qed
  then show ?thesis
    unfolding cand_def nowW_def authW_def st'_def Let_def .
qed

lemma newReset_absent: "resetsAbsent w l \<Longrightarrow> newReset (windowInfo w l) now = None"
  by (auto simp: resetsAbsent_def newReset_def split: option.splits)

lemma newReset_present:
  "windowInfo w l = Some info \<Longrightarrow> resets_in_seconds info = Some r \<Longrightarrow>
   newReset (windowInfo w l) now =
     (if truthy r then Some (jadd (Fin (of_int now)) (jmul r (Fin 1000))) else None)"
  by (simp add: newReset_def)

text \<open>
  The candidate is computed in doubles. A reset-after of \<^verbatim>\<open>300.00000001\<close> is read as the
  double nearest to it, the product by 1000 is rounded, and the sum with a clock reading
  of 1700000000000 is rounded again, to the integer 1700000300000: the hundredth of a
  millisecond is lost.
\<close>

lemma parseFloat_rounds:
  "parseFloat ''300.00000001'' = Fin (2638827906750361 / 8796093022208)"
proof -
  have "roundHalfEven ((30000000001 / 100000000) / 2 powi (8 - 52)) = 5277655813500722"
    by (rule roundHalfEven_near) simp
  from toDouble_normal [of "30000000001 / 100000000" 8, OF _ _ _ _ this]
  have "toDouble (30000000001 / 100000000) = Fin (2638827906750361 / 8796093022208)"
    by simp
  then show ?thesis
    by (simp add: parseFloat_def unsignedLiteral_def isWhite_def isDigit_def startsWith_def
        digitsVal_def digitVal_def exponentOf_def scale10_def)
qed

lemma newReset_rounds:
  "newReset (Some \<lparr>used_percent = Fin 10,
                   resets_in_seconds = Some (parseFloat ''300.00000001'')\<rparr>) 1700000000000 =
     Some (Fin 1700000300000)"
proof -
  have "roundHalfEven ((2638827906750361 / 8796093022208 * 1000) / 2 powi (18 - 52)) =
      5153960755371799"
    by (rule roundHalfEven_near) simp
  from toDouble_normal [of "2638827906750361 / 8796093022208 * 1000" 18, OF _ _ _ _ this]
  have m: "jmul (Fin (2638827906750361 / 8796093022208)) (Fin 1000) =
      Fin (5153960755371799 / 17179869184)"
    by simp
  have "roundHalfEven ((1700000000000 + 5153960755371799 / 17179869184) / 2 powi (40 - 52)) =
      6963201228800000"
    by (rule roundHalfEven_near) simp
  from toDouble_normal [of "1700000000000 + 5153960755371799 / 17179869184" 40, OF _ _ _ _ this]
  have a: "jadd (Fin 1700000000000) (Fin (5153960755371799 / 17179869184)) = Fin 1700000300000"
    by simp
  show ?thesis
    by (simp add: newReset_def truthy_def parseFloat_rounds m a del: jmul.simps jadd.simps)
qed

lemma extract_headersNegativeReset:
  "extractLimits headersNegativeReset =
     Some \<lparr>primary = Some \<lparr>used_percent = Fin 10, resets_in_seconds = Some (Fin (- 1700000000))\<rparr>,
           secondary = None\<rparr>"
  by (simp add: headersNegativeReset_def extract_defs parse_defs)

lemma wf_armed_state: "wf armed_state"
  unfolding armed_state_def by (rule wf_reachable)

text \<open>
  A reset time that is not a date: with a reset-after of \<^verbatim>\<open>Infinity\<close> for the primary
  window the timer is made and its handle stored, the log line throws, and the block of
  the secondary window is not run: its reset time stays as it was although the snapshot
  has none for it.
\<close>

lemma invalid_date_skips_secondary:
  "reconcile
     \<lparr>primary = Some \<lparr>used_percent = Fin 35, resets_in_seconds = Some PInf\<rparr>, secondary = None\<rparr>
     60000 60000 (Some auth0) 60000 (Some auth0) armed_state =
   Thrown (armed_state
     \<lparr>lastLimits :=
        Some \<lparr>primary = Some \<lparr>used_percent = Fin 35, resets_in_seconds = Some PInf\<rparr>,
              secondary = None\<rparr>,
      primaryResetTime := Some PInf, primaryTimer := Some 2,
      timers :=
        [\<lparr>t_id = 1, t_type = Secondary, t_delay = Fin 600000, t_set_at = 0\<rparr>,
         \<lparr>t_id = 2, t_type = Primary, t_delay = PInf, t_set_at = 60000\<rparr>],
      nextId := 3\<rparr>)"
  by (simp add: armed_state_eq sched_defs)

text \<open>
  C3, as the code has it. The candidate of a window is null when the snapshot has no
  \<^verbatim>\<open>resets_in_seconds\<close> for it or has 0, and otherwise it is \<open>now + resets_in_seconds * 1000\<close>
  in double arithmetic. When the block of the window is reached, the window's reset
  time after \<open>reconcile\<close> is the candidate. If the candidate equals the old reset time,
  the window's handle, live timers and immediate pings are untouched. If it differs, the
  timer whose handle the window's variable holds is cleared, and then: with the window
  enabled and a candidate that is neither null nor 0, a timer is made for the window when
  the candidate lies after the clock reading of the arming call (its delay is the
  candidate minus that reading, its handle is stored, no ping is sent), and otherwise one
  immediate ping is sent if credentials are there and none if not (no timer is made, the
  handle variable is not written); with the window disabled, or a candidate that is null
  or 0, no timer is made and no ping is sent.
\<close>

theorem reconcile_per_window:
  assumes "wf st" and "blockReached w l now nowP st"
  shows
    "(resetsAbsent w l \<longrightarrow> newReset (windowInfo w l) now = None) \<and>
     (windowInfo w l = Some info \<and> resets_in_seconds info = Some (Fin 0) \<longrightarrow>
        newReset (windowInfo w l) now = None) \<and>
     (windowInfo w l = Some info \<and> resets_in_seconds info = Some r \<and> truthy r \<longrightarrow>
        newReset (windowInfo w l) now = Some (jadd (Fin (of_int now)) (jmul r (Fin 1000)))) \<and>
     (let cand = newReset (windowInfo w l) now;
          nowW = pick w nowP nowS;
          authW = pick w authP authS;
          st' = stateOf (reconcile l now nowP authP nowS authS st)
      in resetTimeOf w st' = cand \<and>
         (cand = resetTimeOf w st \<longrightarrow>
            timerOf w st' = timerOf w st \<and> liveTimers w st' = liveTimers w st \<and>
            immediates w st' = immediates w st) \<and>
         (cand \<noteq> resetTimeOf w st \<longrightarrow>
            (case cand of
               None \<Rightarrow>
                 timerOf w st' = timerOf w st \<and> liveTimers w st' = cancelled w st \<and>
                 immediates w st' = immediates w st
             | Some c \<Rightarrow>
                 if truthy c \<and> enabledOf w st then
                   if jgt (jsub c (Fin (of_int nowW))) (Fin 0) then
                     (\<exists>h\<ge>nextId st. timerOf w st' = Some h \<and>
                        liveTimers w st' = cancelled w st @
                          [\<lparr>t_id = h, t_type = w, t_delay = jsub c (Fin (of_int nowW)),
                            t_set_at = nowW\<rparr>]) \<and>
                     immediates w st' = immediates w st
                   else
                     timerOf w st' = timerOf w st \<and> liveTimers w st' = cancelled w st \<and>
                     immediates w st' = immediates w st + (if authW = None then 0 else 1)
                 else
                   timerOf w st' = timerOf w st \<and> liveTimers w st' = cancelled w st \<and>
                   immediates w st' = immediates w st)))"
proof (intro conjI)
  show "resetsAbsent w l \<longrightarrow> newReset (windowInfo w l) now = None"
    by (simp add: newReset_absent)
  show "windowInfo w l = Some info \<and> resets_in_seconds info = Some (Fin 0) \<longrightarrow>
        newReset (windowInfo w l) now = None"
    by (simp add: newReset_def truthy_def)
  show "windowInfo w l = Some info \<and> resets_in_seconds info = Some r \<and> truthy r \<longrightarrow>
        newReset (windowInfo w l) now = Some (jadd (Fin (of_int now)) (jmul r (Fin 1000)))"
    by (simp add: newReset_def)
qed (rule reconcile_window_effect [OF assms])

theorem reconcile_per_window_witness:
  "wf armed_state \<and>
   blockReached Secondary
     \<lparr>primary = Some \<lparr>used_percent = Fin 35, resets_in_seconds = Some (Fin 300)\<rparr>,
      secondary = Some \<lparr>used_percent = Fin 20, resets_in_seconds = Some (Fin 1000)\<rparr>\<rparr>
     60000 60000 armed_state \<and>
   (let st' = stateOf (reconcile
        \<lparr>primary = Some \<lparr>used_percent = Fin 35, resets_in_seconds = Some (Fin 300)\<rparr>,
         secondary = Some \<lparr>used_percent = Fin 20, resets_in_seconds = Some (Fin 1000)\<rparr>\<rparr>
        60000 60000 (Some auth0) 60000 (Some auth0) armed_state)
    in resetTimeOf Secondary st' = Some (Fin 1060000) \<and>
       (\<exists>h\<ge>2. timerOf Secondary st' = Some h \<and>
          liveTimers Secondary st' =
            [\<lparr>t_id = h, t_type = Secondary, t_delay = Fin 1000000, t_set_at = 60000\<rparr>]) \<and>
       immediates Secondary st' = 0)"
proof -
  let ?l = "\<lparr>primary = Some \<lparr>used_percent = Fin 35, resets_in_seconds = Some (Fin 300)\<rparr>,
      secondary = Some \<lparr>used_percent = Fin 20, resets_in_seconds = Some (Fin 1000)\<rparr>\<rparr>"
  have b: "blockReached Secondary ?l 60000 60000 armed_state"
    by (simp add: blockReached_def blockThrows_def armingThrows_def newReset_def truthy_def
        validDate_def toDouble_numeral)
  show ?thesis
    using wf_armed_state b
      reconcile_per_window [OF wf_armed_state b, where nowS = 60000 and authP = "Some auth0"
        and authS = "Some auth0"]
    by (simp add: Let_def newReset_def truthy_def jsub_def toDouble_numeral cancelled_def
        liveTimers_def immediates_def armed_state_eq)
qed

text \<open>
  C3 as stated fails: with the clock at 1700000000000 and a reset-after header of
  \<^verbatim>\<open>-1700000000\<close> the candidate is 0, which is not null and differs from the stored
  null; it is stored, the window is enabled, and nothing is armed.
\<close>

theorem zero_candidate_not_armed:
  "resetTimeOf Primary init_state = None \<and> enabledOf Primary init_state \<and>
   newReset (Some \<lparr>used_percent = Fin 10, resets_in_seconds = Some (Fin (- 1700000000))\<rparr>)
     1700000000000 = Some (Fin 0) \<and>
   run [CheckLimits (Some auth0),
        Resolve 0 (Some headersNegativeReset) 1700000000000 1700000000000 (Some auth0)
          1700000000000 (Some auth0)] init_state =
     init_state
       \<lparr>primaryResetTime := Some (Fin 0),
        lastLimits :=
          Some \<lparr>primary =
                  Some \<lparr>used_percent = Fin 10, resets_in_seconds = Some (Fin (- 1700000000))\<rparr>,
                secondary = None\<rparr>\<rparr>"
  by (simp add: init_state_def pingCodex_def extract_headersNegativeReset sched_defs)

text \<open>
  C1, as the code has it. A snapshot without \<^verbatim>\<open>resets_in_seconds\<close> for a window gives the
  null candidate, and null is compared like any value: when the block of the window is
  reached, the window's reset time is null afterwards. If it was null before, the
  window's handle and live timers are untouched; if it was set, the timer whose handle
  the window's variable holds is cleared and no new one is made. The handle variable
  itself is never written on this path, and no ping is sent.
\<close>

theorem reconcile_missing_reset:
  assumes "wf st" and "blockReached w l now nowP st" and "resetsAbsent w l"
  shows "let st' = stateOf (reconcile l now nowP authP nowS authS st) in
     resetTimeOf w st' = None \<and> timerOf w st' = timerOf w st \<and>
     liveTimers w st' = (if resetTimeOf w st = None then liveTimers w st else cancelled w st) \<and>
     immediates w st' = immediates w st"
proof -
  have c: "newReset (windowInfo w l) now = None"
    using assms(3) by (rule newReset_absent)
  show ?thesis
    using reconcile_window_effect [OF assms(1,2), of nowS authP authS]
    by (cases "resetTimeOf w st") (simp_all add: c Let_def)
qed

theorem reconcile_missing_reset_witness:
  "wf armed_state \<and>
   blockReached Secondary
     \<lparr>primary = Some \<lparr>used_percent = Fin 35, resets_in_seconds = Some (Fin 300)\<rparr>,
      secondary = None\<rparr> 60000 60000 armed_state \<and>
   resetsAbsent Secondary
     \<lparr>primary = Some \<lparr>used_percent = Fin 35, resets_in_seconds = Some (Fin 300)\<rparr>,
      secondary = None\<rparr> \<and>
   resetTimeOf Secondary armed_state = Some (Fin 600000) \<and>
   liveTimers Secondary armed_state =
     [\<lparr>t_id = 1, t_type = Secondary, t_delay = Fin 600000, t_set_at = 0\<rparr>] \<and>
   (let st' = stateOf (reconcile
        \<lparr>primary = Some \<lparr>used_percent = Fin 35, resets_in_seconds = Some (Fin 300)\<rparr>,
         secondary = None\<rparr> 60000 60000 (Some auth0) 60000 (Some auth0) armed_state)
    in resetTimeOf Secondary st' = None \<and> timerOf Secondary st' = Some 1 \<and>
       liveTimers Secondary st' = [] \<and> immediates Secondary st' = 0)"
proof -
  let ?l = "\<lparr>primary = Some \<lparr>used_percent = Fin 35, resets_in_seconds = Some (Fin 300)\<rparr>,
      secondary = None\<rparr>"
  have b: "blockReached Secondary ?l 60000 60000 armed_state"
    by (simp add: blockReached_def blockThrows_def armingThrows_def newReset_def truthy_def
        validDate_def toDouble_numeral)
  have h: "resetsAbsent Secondary ?l"
    by (simp add: resetsAbsent_def)
  show ?thesis
    using wf_armed_state b h
      reconcile_missing_reset [OF wf_armed_state b h, of "Some auth0" 60000 "Some auth0"]
    by (simp add: Let_def cancelled_def liveTimers_def immediates_def armed_state_eq)
qed

text \<open>
  C1 as stated fails: the primary window is armed for 300000 with a live timer; a snapshot
  whose primary window has no \<^verbatim>\<open>resets_in_seconds\<close> sets the reset time to null and clears
  the timer.
\<close>

theorem missing_reset_clears_schedule:
  "pingCodex (Some headersNoPrimaryReset) =
     Some \<lparr>primary = Some \<lparr>used_percent = Fin 12, resets_in_seconds = None\<rparr>,
           secondary = Some \<lparr>used_percent = Fin 20, resets_in_seconds = Some (Fin 540)\<rparr>\<rparr> \<and>
   resetTimeOf Primary armed_state = Some (Fin 300000) \<and>
   liveTimers Primary armed_state =
     [\<lparr>t_id = 0, t_type = Primary, t_delay = Fin 300000, t_set_at = 0\<rparr>] \<and>
   resetTimeOf Primary
     (run [CheckLimits (Some auth0),
           Resolve 0 (Some headersNoPrimaryReset) 60000 60000 (Some auth0) 60000 (Some auth0)]
        armed_state) = None \<and>
   liveTimers Primary
     (run [CheckLimits (Some auth0),
           Resolve 0 (Some headersNoPrimaryReset) 60000 60000 (Some auth0) 60000 (Some auth0)]
        armed_state) = []"
  by (simp add: armed_state_eq liveTimers_def pingCodex_def extract_headersNoPrimaryReset sched_defs)

section \<open>Arming after the deadline\<close>

lemma reconcile_immediate:
  assumes "wf st" and "blockReached w l nowR nowP st"
    and "newReset (windowInfo w l) nowR = Some c" and "Some c \<noteq> resetTimeOf w st"
    and "truthy c" and "enabledOf w st"
    and "\<not> jgt (jsub c (Fin (of_int (pick w nowP nowS)))) (Fin 0)"
    and "pick w authP authS = Some a"
  shows "pingCount st < pingCount (stateOf (reconcile l nowR nowP authP nowS authS st))"
    and "lastPingTime (stateOf (reconcile l nowR nowP authP nowS authS st)) = Some (pick w nowP nowS) \<or>
         lastPingTime (stateOf (reconcile l nowR nowP authP nowS authS st)) = Some nowS"
    and "AfterImmediate w \<in> set (pending (stateOf (reconcile l nowR nowP authP nowS authS st)))"
    and "timerOf w (stateOf (reconcile l nowR nowP authP nowS authS st)) = timerOf w st"
    and "liveTimers w (stateOf (reconcile l nowR nowP authP nowS authS st)) = cancelled w st"
proof -
  let ?cand = "newReset (windowInfo w l) nowR"
  let ?nowW = "pick w nowP nowS"
  let ?authW = "pick w authP authS"
  let ?st' = "stateOf (reconcile l nowR nowP authP nowS authS st)"
  from reconcile_view [OF assms(1,2), where nowS = nowS and authP = authP and authS = authS]
  obtain s where s: "resetTimeOf w s = resetTimeOf w st" "timerOf w s = timerOf w st"
    "enabledOf w s = enabledOf w st" "liveTimers w s = liveTimers w st" "pingCount st \<le> pingCount s"
    and r: "timerOf w ?st' = timerOf w (reconcileWindow w ?cand ?nowW ?authW s)"
      "liveTimers w ?st' = liveTimers w (reconcileWindow w ?cand ?nowW ?authW s)"
      "pingCount (reconcileWindow w ?cand ?nowW ?authW s) \<le> pingCount ?st'"
      "set (pending (reconcileWindow w ?cand ?nowW ?authW s)) \<subseteq> set (pending ?st')"
      "lastPingTime ?st' = lastPingTime (reconcileWindow w ?cand ?nowW ?authW s) \<or>
       lastPingTime ?st' = Some nowS"
    by blast
  have neq: "?cand \<noteq> resetTimeOf w s" using assms(3,4) s(1) by simp
  have en: "enabledOf w s" using assms(6) s(3) by simp
  have rw: "reconcileWindow w ?cand ?nowW ?authW s =
      (setResetTime w ?cand (dropHandle w s))
          \<lparr>pingCount := pingCount s + 1, lastPingTime := Some ?nowW,
           pending := pending s @ [AfterImmediate w]\<rparr>"
    using reconcileWindow_immediate [OF neq assms(3,5) en assms(7), of ?authW]
    by (simp add: assms(8))
  have cc: "cancelled w s = cancelled w st"
    by (simp add: cancelled_def s)
  show "pingCount st < pingCount ?st'"
    using r(3) s(5) by (simp add: rw)
  show "lastPingTime ?st' = Some ?nowW \<or> lastPingTime ?st' = Some nowS"
    using r(5) by (simp add: rw)
  show "AfterImmediate w \<in> set (pending ?st')"
    using r(4) by (simp add: rw)
  show "timerOf w ?st' = timerOf w st"
    by (simp add: r(1) rw s)
  have "liveTimers w (reconcileWindow w ?cand ?nowW ?authW s) = cancelled w s"
    unfolding rw by (simp add: liveTimers_def cancelled_def conj_commute)
  then show "liveTimers w ?st' = cancelled w st"
    using r(2) cc by simp
qed

text \<open>
  C7, as the code has it. When a window is armed and its reset time is not after the
  clock reading, no timer is made and the call returns: with credentials the counter is
  incremented, the ping time is set and the request is in flight before \<^verbatim>\<open>schedulePing\<close>
  returns; without credentials nothing happens at all. The same holds when \<open>reconcile\<close>
  is over if the arming is the one of a changed candidate and the block of the window is
  reached.
\<close>

theorem immediate_fire:
  assumes "truthy c" and "enabledOf w st" and "\<not> jgt (jsub c (Fin (of_int now))) (Fin 0)"
  shows
    "schedulePing (Some c) w now (Some a) st =
       Returned (st\<lparr>pingCount := pingCount st + 1, lastPingTime := Some now,
          pending := pending st @ [AfterImmediate w]\<rparr>) \<and>
     schedulePing (Some c) w now None st = Returned st \<and>
     (wf st \<and> blockReached w l nowR nowP st \<and>
      newReset (windowInfo w l) nowR = Some c \<and> Some c \<noteq> resetTimeOf w st \<and>
      pick w nowP nowS = now \<and> pick w authP authS = Some a \<longrightarrow>
        (let st' = stateOf (reconcile l nowR nowP authP nowS authS st) in
           pingCount st < pingCount st' \<and>
           (lastPingTime st' = Some now \<or> lastPingTime st' = Some nowS) \<and>
           AfterImmediate w \<in> set (pending st') \<and>
           timerOf w st' = timerOf w st \<and> liveTimers w st' = cancelled w st))"
proof (intro conjI impI)
  show "schedulePing (Some c) w now (Some a) st =
       Returned (st\<lparr>pingCount := pingCount st + 1, lastPingTime := Some now,
          pending := pending st @ [AfterImmediate w]\<rparr>)"
    by (simp add: schedulePing_immediate [OF assms])
  show "schedulePing (Some c) w now None st = Returned st"
    by (simp add: schedulePing_immediate [OF assms])
next
  assume h: "wf st \<and> blockReached w l nowR nowP st \<and>
      newReset (windowInfo w l) nowR = Some c \<and> Some c \<noteq> resetTimeOf w st \<and>
      pick w nowP nowS = now \<and> pick w authP authS = Some a"
  then have d: "\<not> jgt (jsub c (Fin (of_int (pick w nowP nowS)))) (Fin 0)"
    using assms(3) by simp
  from h have p: "pick w nowP nowS = now" by simp
  show "let st' = stateOf (reconcile l nowR nowP authP nowS authS st) in
           pingCount st < pingCount st' \<and>
           (lastPingTime st' = Some now \<or> lastPingTime st' = Some nowS) \<and>
           AfterImmediate w \<in> set (pending st') \<and>
           timerOf w st' = timerOf w st \<and> liveTimers w st' = cancelled w st"
    using reconcile_immediate [of st w l nowR nowP c nowS authP authS a] h assms(1,2) d
    unfolding Let_def p by blast
qed

theorem immediate_fire_witness:
  "truthy (Fin 699000) \<and> enabledOf Secondary armed_state \<and>
   \<not> jgt (jsub (Fin 699000) (Fin (of_int 700000))) (Fin 0) \<and> wf armed_state \<and>
   blockReached Secondary
     \<lparr>primary = Some \<lparr>used_percent = Fin 10, resets_in_seconds = Some (Fin 300)\<rparr>,
      secondary = Some \<lparr>used_percent = Fin 20, resets_in_seconds = Some (Fin (- 1))\<rparr>\<rparr>
     700000 700000 armed_state \<and>
   newReset (windowInfo Secondary
       \<lparr>primary = Some \<lparr>used_percent = Fin 10, resets_in_seconds = Some (Fin 300)\<rparr>,
        secondary = Some \<lparr>used_percent = Fin 20, resets_in_seconds = Some (Fin (- 1))\<rparr>\<rparr>)
     700000 = Some (Fin 699000) \<and>
   Some (Fin 699000) \<noteq> resetTimeOf Secondary armed_state \<and>
   schedulePing (Some (Fin 699000)) Secondary 700000 (Some auth0) armed_state =
     Returned (armed_state\<lparr>pingCount := 1, lastPingTime := Some 700000,
       pending := [AfterImmediate Secondary]\<rparr>) \<and>
   schedulePing (Some (Fin 699000)) Secondary 700000 None armed_state = Returned armed_state \<and>
   (let st' = stateOf (reconcile
        \<lparr>primary = Some \<lparr>used_percent = Fin 10, resets_in_seconds = Some (Fin 300)\<rparr>,
         secondary = Some \<lparr>used_percent = Fin 20, resets_in_seconds = Some (Fin (- 1))\<rparr>\<rparr>
        700000 700000 (Some auth0) 700000 (Some auth0) armed_state)
    in 0 < pingCount st' \<and> lastPingTime st' = Some 700000 \<and>
       AfterImmediate Secondary \<in> set (pending st') \<and>
       timerOf Secondary st' = Some 1 \<and> liveTimers Secondary st' = [])"
proof -
  let ?l = "\<lparr>primary = Some \<lparr>used_percent = Fin 10, resets_in_seconds = Some (Fin 300)\<rparr>,
        secondary = Some \<lparr>used_percent = Fin 20, resets_in_seconds = Some (Fin (- 1))\<rparr>\<rparr>"
  have h1: "truthy (Fin 699000)" by (simp add: truthy_def)
  have h2: "enabledOf Secondary armed_state" by (simp add: armed_state_eq)
  have h3: "\<not> jgt (jsub (Fin 699000) (Fin (of_int 700000))) (Fin 0)"
    by (simp add: jsub_def toDouble_numeral)
  have h4: "newReset (windowInfo Secondary ?l) 700000 = Some (Fin 699000)"
    by (simp add: newReset_def truthy_def toDouble_numeral)
  have h5: "Some (Fin 699000) \<noteq> resetTimeOf Secondary armed_state" by (simp add: armed_state_eq)
  have h6: "pingCount armed_state = 0" "pending armed_state = []"
    "cancelled Secondary armed_state = []" "secondaryTimer armed_state = Some 1"
    by (simp_all add: armed_state_eq cancelled_def liveTimers_def)
  have b: "blockReached Secondary ?l 700000 700000 armed_state"
    by (simp add: blockReached_def blockThrows_def armingThrows_def newReset_def truthy_def
        validDate_def toDouble_numeral)
  show ?thesis
    using h1 h2 h3 h4 h5 b wf_armed_state
      immediate_fire [OF h1 h2 h3, where a = auth0 and nowR = 700000 and nowP = 700000
        and nowS = 700000 and authP = "Some auth0" and authS = "Some auth0" and l = ?l]
    by (simp add: h6 Let_def)
qed

text \<open>
  C7 as stated fails: the window is enabled and its candidate 59000 has passed when it
  is armed at 60000, but \<^verbatim>\<open>loadAuth\<close> returns null there; \<open>reconcile\<close> returns, the counter
  is still 0 and no ping time is set.
\<close>

theorem immediate_fire_skipped_without_credentials:
  "newReset (Some \<lparr>used_percent = Fin 10, resets_in_seconds = Some (Fin (- 1))\<rparr>) 60000 =
     Some (Fin 59000) \<and>
   \<not> jgt (jsub (Fin 59000) (Fin (of_int 60000))) (Fin 0) \<and>
   enabledOf Primary init_state \<and>
   reconcile \<lparr>primary = Some \<lparr>used_percent = Fin 10, resets_in_seconds = Some (Fin (- 1))\<rparr>,
              secondary = None\<rparr> 60000 60000 None 60000 None init_state =
     Returned (init_state
       \<lparr>primaryResetTime := Some (Fin 59000),
        lastLimits :=
          Some \<lparr>primary = Some \<lparr>used_percent = Fin 10, resets_in_seconds = Some (Fin (- 1))\<rparr>,
                secondary = None\<rparr>\<rparr>) \<and>
   pingCount init_state = 0 \<and> lastPingTime init_state = None"
  by (simp add: init_state_def sched_defs)

section \<open>The switches\<close>





lemma setSwitch_fields [simp]:
  "timers (setSwitch w v st) = timers st"
  "nextId (setSwitch w v st) = nextId st"
  "pending (setSwitch w v st) = pending st"
  "pingCount (setSwitch w v st) = pingCount st"
  "lastPingTime (setSwitch w v st) = lastPingTime st"
  "lastLimits (setSwitch w v st) = lastLimits st"
  "resetTimeOf w' (setSwitch w v st) = resetTimeOf w' st"
  "timerOf w' (setSwitch w v st) = timerOf w' st"
  "enabledOf w' (setSwitch w v st) = (if w' = w then v else enabledOf w' st)"
  by (cases w; cases w'; simp)+




section \<open>One timer per window\<close>

lemma extract_headersAfterPrimary:
  "extractLimits headersAfterPrimary =
     Some \<lparr>primary = Some \<lparr>used_percent = Fin 0, resets_in_seconds = Some (Fin 18000)\<rparr>,
           secondary = Some \<lparr>used_percent = Fin 20, resets_in_seconds = Some (Fin 300)\<rparr>\<rparr>"
  by (simp add: headersAfterPrimary_def extract_defs parse_defs)

lemma extract_headersAfterSecondary:
  "extractLimits headersAfterSecondary =
     Some \<lparr>primary = Some \<lparr>used_percent = Fin 1, resets_in_seconds = Some (Fin 17700)\<rparr>,
           secondary = Some \<lparr>used_percent = Fin 0, resets_in_seconds = Some (Fin 604800)\<rparr>\<rparr>"
  by (simp add: headersAfterSecondary_def extract_defs parse_defs)

lemma run_append: "run (xs @ ys) st = run ys (run xs st)"
  by (induction xs arbitrary: st) simp_all

lemma primary_fired_eq:
  "run primary_fired armed_state =
     \<lparr>primaryEnabled = True, secondaryEnabled = True,
      primaryResetTime = Some (Fin 18300000), secondaryResetTime = Some (Fin 600000),
      primaryTimer = None, secondaryTimer = Some 1,
      lastPingTime = Some 300000, pingCount = 1,
      lastLimits =
        Some \<lparr>primary = Some \<lparr>used_percent = Fin 0, resets_in_seconds = Some (Fin 18000)\<rparr>,
              secondary = Some \<lparr>used_percent = Fin 20, resets_in_seconds = Some (Fin 300)\<rparr>\<rparr>,
      timers =
        [\<lparr>t_id = 1, t_type = Secondary, t_delay = Fin 600000, t_set_at = 0\<rparr>,
         \<lparr>t_id = 2, t_type = Primary, t_delay = Fin 18000000, t_set_at = 300000\<rparr>],
      nextId = 3, pending = []\<rparr>"
  by (simp add: primary_fired_def armed_state_eq pingCodex_def extract_headersAfterPrimary
      sched_defs)

lemma secondary_fired_eq:
  "run (primary_fired @ secondary_fired) armed_state =
     \<lparr>primaryEnabled = True, secondaryEnabled = True,
      primaryResetTime = Some (Fin 18300250), secondaryResetTime = Some (Fin 605400250),
      primaryTimer = Some 3, secondaryTimer = None,
      lastPingTime = Some 600250, pingCount = 2,
      lastLimits =
        Some \<lparr>primary = Some \<lparr>used_percent = Fin 1, resets_in_seconds = Some (Fin 17700)\<rparr>,
              secondary = Some \<lparr>used_percent = Fin 0, resets_in_seconds = Some (Fin 604800)\<rparr>\<rparr>,
      timers =
        [\<lparr>t_id = 2, t_type = Primary, t_delay = Fin 18000000, t_set_at = 300000\<rparr>,
         \<lparr>t_id = 3, t_type = Primary, t_delay = Fin 17700000, t_set_at = 600250\<rparr>,
         \<lparr>t_id = 4, t_type = Secondary, t_delay = Fin 604800000, t_set_at = 600250\<rparr>],
      nextId = 5, pending = []\<rparr>"
  by (simp add: run_append primary_fired_eq secondary_fired_def pingCodex_def
      extract_headersAfterSecondary sched_defs)

text \<open>
  C2 fails on the code. Both windows are armed by the first poll. The primary timer fires;
  the reply re-arms the primary window with timer 2, and the last lines of the callback
  then set \<^verbatim>\<open>primaryTimer\<close> to null: timer 2 is live and no variable holds its handle.
  The secondary timer fires next; the reply changes the primary reset time, the guard
  \<^verbatim>\<open>if (primaryTimer)\<close> finds null, nothing is cleared, and timer 3 is made: two primary
  timers are live.
\<close>

theorem duplicate_primary_timers:
  "timerOf Primary (run primary_fired armed_state) = None \<and>
   map t_id (liveTimers Primary (run primary_fired armed_state)) = [2] \<and>
   map t_id (liveTimers Primary (run (primary_fired @ secondary_fired) armed_state)) = [2, 3] \<and>
   timerOf Secondary (run (primary_fired @ secondary_fired) armed_state) = None \<and>
   map t_id (liveTimers Secondary (run (primary_fired @ secondary_fired) armed_state)) = [4]"
  by (simp add: primary_fired_eq secondary_fired_eq liveTimers_def)

end
